theory Spec2Isabelle
  imports Main "HOL-Library.Word" "HOL-Library.AList" "HOL-Library.Sublist"
begin

unbundle bit_operations_syntax

section \<open>Strings, buffers and the two base64 primitives\<close>

text \<open>
  A JavaScript string is a sequence of 16-bit code units; a Node \<open>Buffer\<close> is a
  sequence of bytes.  Base64 text, file contents and log lines are ASCII/Latin-1
  text and are kept as HOL strings.
\<close>

type_synonym byte = "8 word"
type_synonym js_string = "16 word list"

text \<open>
  \<open>Buffer.from(str)\<close> (default encoding \<open>'utf8'\<close>): every code unit below
  \<open>0x80\<close> is one byte, below \<open>0x800\<close> two bytes, a surrogate pair four bytes,
  a lone surrogate the replacement character \<open>EF BF BD\<close>, anything else three bytes.
\<close>

definition isHighSurrogate :: "16 word \<Rightarrow> bool" where
  "isHighSurrogate u = (0xD800 \<le> unat u \<and> unat u < 0xDC00)"

definition isLowSurrogate :: "16 word \<Rightarrow> bool" where
  "isLowSurrogate u = (0xDC00 \<le> unat u \<and> unat u < 0xE000)"

definition utf8Bytes :: "nat \<Rightarrow> byte list" where
  "utf8Bytes cp =
     (if cp < 0x80 then [of_nat cp]
      else if cp < 0x800 then [of_nat (0xC0 + cp div 64), of_nat (0x80 + cp mod 64)]
      else if cp < 0x10000 then
        [of_nat (0xE0 + cp div 4096), of_nat (0x80 + (cp div 64) mod 64), of_nat (0x80 + cp mod 64)]
      else
        [of_nat (0xF0 + cp div 262144), of_nat (0x80 + (cp div 4096) mod 64),
         of_nat (0x80 + (cp div 64) mod 64), of_nat (0x80 + cp mod 64)])"

fun bufferFrom :: "js_string \<Rightarrow> byte list" where
  "bufferFrom [] = []"
| "bufferFrom [u] =
     (if isHighSurrogate u \<or> isLowSurrogate u then utf8Bytes 0xFFFD else utf8Bytes (unat u))"
| "bufferFrom (u # l # rest) =
     (if isHighSurrogate u then
        (if isLowSurrogate l
         then utf8Bytes (0x10000 + (unat u - 0xD800) * 1024 + (unat l - 0xDC00)) @ bufferFrom rest
         else utf8Bytes 0xFFFD @ bufferFrom (l # rest))
      else if isLowSurrogate u then utf8Bytes 0xFFFD @ bufferFrom (l # rest)
      else utf8Bytes (unat u) @ bufferFrom (l # rest))"

text \<open>\<open>buf.toString('base64')\<close>: RFC 4648 base64 with \<open>=\<close> padding.\<close>

definition base64Alphabet :: string where
  "base64Alphabet = ''ABCDEFGHIJKLMNOPQRSTUVWXYZabcdefghijklmnopqrstuvwxyz0123456789+/''"

definition b64char :: "nat \<Rightarrow> char" where
  "b64char n = base64Alphabet ! (n mod 64)"

fun toBase64 :: "byte list \<Rightarrow> string" where
  "toBase64 [] = []"
| "toBase64 [a] =
     [b64char (unat a div 4), b64char ((unat a mod 4) * 16), CHR ''='', CHR ''='']"
| "toBase64 [a, b] =
     [b64char (unat a div 4), b64char ((unat a mod 4) * 16 + unat b div 16),
      b64char ((unat b mod 16) * 4), CHR ''='']"
| "toBase64 (a # b # c # rest) =
     [b64char (unat a div 4), b64char ((unat a mod 4) * 16 + unat b div 16),
      b64char ((unat b mod 16) * 4 + unat c div 64), b64char (unat c mod 64)] @ toBase64 rest"

text \<open>
  The browser's \<open>atob\<close> (forgiving-base64 decode): ASCII whitespace is removed; if the
  length is a multiple of four, one or two trailing \<open>=\<close> are removed; a length of
  \<open>1 mod 4\<close> or a character outside the alphabet raises (here \<open>None\<close>); the sextets
  are then turned into bytes, and each byte becomes one code unit of the result.
\<close>

definition isAsciiWhitespace :: "char \<Rightarrow> bool" where
  "isAsciiWhitespace c = (c \<in> {CHR 0x09, CHR 0x0A, CHR 0x0C, CHR 0x0D, CHR 0x20})"

fun indexOf :: "'a \<Rightarrow> 'a list \<Rightarrow> nat option" where
  "indexOf x [] = None"
| "indexOf x (y # ys) = (if x = y then Some 0 else map_option Suc (indexOf x ys))"

definition b64val :: "char \<Rightarrow> nat option" where
  "b64val c = indexOf c base64Alphabet"

definition stripPadding :: "string \<Rightarrow> string" where
  "stripPadding d =
     (if length d mod 4 = 0 then
        (if 2 \<le> length d \<and> drop (length d - 2) d = ''=='' then take (length d - 2) d
         else if 1 \<le> length d \<and> drop (length d - 1) d = ''='' then take (length d - 1) d
         else d)
      else d)"

fun sextets :: "string \<Rightarrow> nat list option" where
  "sextets [] = Some []"
| "sextets (c # cs) =
     (case b64val c of None \<Rightarrow> None
      | Some v \<Rightarrow> (case sextets cs of None \<Rightarrow> None | Some vs \<Rightarrow> Some (v # vs)))"

fun fromSextets :: "nat list \<Rightarrow> byte list" where
  "fromSextets (s0 # s1 # s2 # s3 # rest) =
     [of_nat (s0 * 4 + s1 div 16), of_nat ((s1 mod 16) * 16 + s2 div 4),
      of_nat ((s2 mod 4) * 64 + s3)] @ fromSextets rest"
| "fromSextets [s0, s1, s2] = [of_nat (s0 * 4 + s1 div 16), of_nat ((s1 mod 16) * 16 + s2 div 4)]"
| "fromSextets [s0, s1] = [of_nat (s0 * 4 + s1 div 16)]"
| "fromSextets _ = []"

definition atob :: "string \<Rightarrow> js_string option" where
  "atob data =
     (let d = stripPadding (filter (\<lambda>c. \<not> isAsciiWhitespace c) data)
      in if length d mod 4 = 1 then None
         else (case sextets d of None \<Rightarrow> None
               | Some vs \<Rightarrow> Some (map ucast (fromSextets vs))))"

section \<open>The file system seen through Node's \<open>fs\<close> module\<close>

text \<open>
  A path is its list of components (\<open>path.join(dir, name)\<close> appends one); the file
  system is a tree whose directories list their entries in \<open>readdirSync\<close> order.
  A synchronous call that throws returns \<open>Inl\<close> of the error.
\<close>

type_synonym path = "string list"

datatype fsnode = File string | Dir "(string \<times> fsnode) list"

datatype error =
    ENOENT path
  | ENOTDIR path
  | EISDIR path
  | EEXIST path
  | TemplateNotFound path
  | WebpackFailure string
  | ModuleNotFound string

fun lookup :: "fsnode \<Rightarrow> path \<Rightarrow> fsnode option" where
  "lookup n [] = Some n"
| "lookup (File c) (x # p) = None"
| "lookup (Dir es) (x # p) = (case map_of es x of None \<Rightarrow> None | Some ch \<Rightarrow> lookup ch p)"

definition existsSync :: "fsnode \<Rightarrow> path \<Rightarrow> bool" where
  "existsSync fs p = (lookup fs p \<noteq> None)"

definition readFileSync :: "fsnode \<Rightarrow> path \<Rightarrow> error + string" where
  "readFileSync fs p =
     (case lookup fs p of None \<Rightarrow> Inl (ENOENT p)
      | Some (Dir es) \<Rightarrow> Inl (EISDIR p)
      | Some (File c) \<Rightarrow> Inr c)"

definition readdirSync :: "fsnode \<Rightarrow> path \<Rightarrow> error + string list" where
  "readdirSync fs p =
     (case lookup fs p of None \<Rightarrow> Inl (ENOENT p)
      | Some (File c) \<Rightarrow> Inl (ENOTDIR p)
      | Some (Dir es) \<Rightarrow> Inr (map fst es))"

text \<open>\<open>fs.mkdirSync(p, { recursive: true })\<close>: missing directories are created along the
  path; a file in the way is an error.\<close>

fun mkdirp :: "path \<Rightarrow> fsnode \<Rightarrow> fsnode option" where
  "mkdirp [] (Dir es) = Some (Dir es)"
| "mkdirp [] (File c) = None"
| "mkdirp (x # p) (File c) = None"
| "mkdirp (x # p) (Dir es) =
     (case mkdirp p (case map_of es x of None \<Rightarrow> Dir [] | Some ch \<Rightarrow> ch) of
        None \<Rightarrow> None
      | Some ch' \<Rightarrow> Some (Dir (AList.update x ch' es)))"

definition mkdirSync :: "fsnode \<Rightarrow> path \<Rightarrow> error + fsnode" where
  "mkdirSync fs p = (case mkdirp p fs of None \<Rightarrow> Inl (EEXIST p) | Some fs' \<Rightarrow> Inr fs')"

text \<open>\<open>fs.writeFileSync(p, content)\<close>: the parent must be an existing directory and
  the target must not be a directory.\<close>

fun writeAt :: "path \<Rightarrow> string \<Rightarrow> fsnode \<Rightarrow> fsnode option" where
  "writeAt [] content (File c) = Some (File content)"
| "writeAt [] content (Dir es) = None"
| "writeAt (x # p) content (File c) = None"
| "writeAt (x # p) content (Dir es) =
     (case map_of es x of
        None \<Rightarrow> (if p = [] then Some (Dir (AList.update x (File content) es)) else None)
      | Some ch \<Rightarrow>
          (case writeAt p content ch of
             None \<Rightarrow> None
           | Some ch' \<Rightarrow> Some (Dir (AList.update x ch' es))))"

definition writeFileSync :: "fsnode \<Rightarrow> path \<Rightarrow> string \<Rightarrow> error + fsnode" where
  "writeFileSync fs p content =
     (case writeAt p content fs of
        None \<Rightarrow> (case lookup fs p of Some (Dir es) \<Rightarrow> Inl (EISDIR p) | _ \<Rightarrow> Inl (ENOENT p))
      | Some fs' \<Rightarrow> Inr fs')"

text \<open>\<open>fs.rmSync(p, { recursive: true, force: true })\<close>: the entry and everything
  below it are removed; a missing path is not an error.\<close>

fun removeAt :: "path \<Rightarrow> fsnode \<Rightarrow> fsnode" where
  "removeAt [] n = n"
| "removeAt (x # p) (File c) = File c"
| "removeAt (x # p) (Dir es) =
     (if p = [] then Dir (AList.delete x es)
      else (case map_of es x of
              None \<Rightarrow> Dir es
            | Some ch \<Rightarrow> Dir (AList.update x (removeAt p ch) es)))"

definition rmSync :: "fsnode \<Rightarrow> path \<Rightarrow> fsnode" where
  "rmSync fs p = removeAt p fs"

section \<open>The chunk encoder of \<open>generateJavaScriptFile\<close>\<close>

definition chunkSize :: nat where
  "chunkSize = 800000"

text \<open>\<open>str.slice(i, j)\<close> for \<open>0 \<le> i \<le> j\<close>.\<close>

definition slice :: "'a list \<Rightarrow> nat \<Rightarrow> nat \<Rightarrow> 'a list" where
  "slice s i j = take (j - i) (drop i s)"

text \<open>
  \<^verbatim>\<open>for (let i = 0; i < encodedReact.length; i += chunkSize)
       chunks.push(encodedReact.slice(i, i + chunkSize));\<close>
\<close>

function chunkLoop :: "string \<Rightarrow> nat \<Rightarrow> string list \<Rightarrow> string list" where
  "chunkLoop encodedReact i chunks =
     (if i < length encodedReact
      then chunkLoop encodedReact (i + chunkSize) (chunks @ [slice encodedReact i (i + chunkSize)])
      else chunks)"
  by pat_completeness auto
termination
  by (relation "measure (\<lambda>(e, i, c). length e - i)") (auto simp: chunkSize_def)

declare chunkLoop.simps [simp del]

definition splitChunks :: "string \<Rightarrow> string list" where
  "splitChunks encodedReact = chunkLoop encodedReact 0 []"

definition encodeChunks :: "js_string \<Rightarrow> string list" where
  "encodeChunks compiledReact = splitChunks (toBase64 (bufferFrom compiledReact))"

text \<open>Template literals print an index in decimal.\<close>

definition digitChar :: "nat \<Rightarrow> char" where
  "digitChar d = char_of (48 + d)"

fun showNat :: "nat \<Rightarrow> string" where
  "showNat n = (if n < 10 then [digitChar n] else showNat (n div 10) @ [digitChar (n mod 10)])"

declare showNat.simps [simp del]

text \<open>
  \<^verbatim>\<open>const chunkFileName = `${this.componentName}Chunk${index}.js`;
  const chunkContent = `// React Bundle Chunk ${index + 1}/${chunks.length}
  export const chunk${index} = '${chunk}';
  `;\<close>
\<close>

definition chunkFileName :: "string \<Rightarrow> nat \<Rightarrow> string" where
  "chunkFileName componentName index = componentName @ ''Chunk'' @ showNat index @ ''.js''"

definition chunkContent :: "nat \<Rightarrow> nat \<Rightarrow> string \<Rightarrow> string" where
  "chunkContent index nChunks chunk =
     ''// React Bundle Chunk '' @ showNat (index + 1) @ ''/'' @ showNat nChunks @ [CHR 0x0A] @
     ''export const chunk'' @ showNat index @ '' = '' @ [CHR 0x27] @ chunk @ [CHR 0x27] @ '';'' @
     [CHR 0x0A]"

text \<open>\<open>chunks.forEach((chunk, index) => fs.writeFileSync(...))\<close>: the first write that
  throws ends the loop.\<close>

fun writeChunks ::
  "path \<Rightarrow> string \<Rightarrow> nat \<Rightarrow> nat \<Rightarrow> string list \<Rightarrow> fsnode \<Rightarrow> error + fsnode" where
  "writeChunks componentDir componentName nChunks index [] fs = Inr fs"
| "writeChunks componentDir componentName nChunks index (chunk # rest) fs =
     (case writeFileSync fs (componentDir @ [chunkFileName componentName index])
             (chunkContent index nChunks chunk) of
        Inl e \<Rightarrow> Inl e
      | Inr fs' \<Rightarrow> writeChunks componentDir componentName nChunks (index + 1) rest fs')"

text \<open>Lines 352--372 of \<open>generateJavaScriptFile\<close>: encode, split, write one module per
  chunk.  The result is the chunk list and the file system after the writes.\<close>

definition emitChunkFiles ::
  "path \<Rightarrow> string \<Rightarrow> js_string \<Rightarrow> fsnode \<Rightarrow> error + (string list \<times> fsnode)" where
  "emitChunkFiles outputDir componentName compiledReact fs =
     (let chunks = encodeChunks compiledReact;
          componentDir = outputDir @ [''lwc'', componentName]
      in case writeChunks componentDir componentName (length chunks) 0 chunks fs of
           Inl e \<Rightarrow> Inl e
         | Inr fs' \<Rightarrow> Inr (chunks, fs'))"

text \<open>The host's per-file ceiling named by the comment at the chunk size (\<open>1MB\<close>), and
  the largest length an ECMAScript string can have (\<open>2^53 - 1\<close>).\<close>

definition hostFileLimit :: nat where
  "hostFileLimit = 1000000"

definition maxStringLength :: nat where
  "maxStringLength = 2 ^ 53 - 1"

text \<open>Helpers for the proofs: the number of loop iterations and the unpadded encoding.\<close>

definition numChunks :: "nat \<Rightarrow> nat" where
  "numChunks n = (n + chunkSize - 1) div chunkSize"

fun encBody :: "byte list \<Rightarrow> string" where
  "encBody [] = []"
| "encBody [a] = [b64char (unat a div 4), b64char ((unat a mod 4) * 16)]"
| "encBody [a, b] =
     [b64char (unat a div 4), b64char ((unat a mod 4) * 16 + unat b div 16),
      b64char ((unat b mod 16) * 4)]"
| "encBody (a # b # c # rest) =
     [b64char (unat a div 4), b64char ((unat a mod 4) * 16 + unat b div 16),
      b64char ((unat b mod 16) * 4 + unat c div 64), b64char (unat c mod 64)] @ encBody rest"

text \<open>\<open>Buffer.byteLength(str)\<close> of Latin-1 text written as UTF-8: one byte for an ASCII
  character, two otherwise.\<close>

definition byteLength :: "string \<Rightarrow> nat" where
  "byteLength s = sum_list (map (\<lambda>c. if (of_char c :: nat) < 128 then 1 else 2) s)"

text \<open>A canonical base64 string: a multiple of four characters, alphabet characters
  followed by at most two \<open>=\<close> at the very end.\<close>

definition validBase64 :: "string \<Rightarrow> bool" where
  "validBase64 s = (length s mod 4 = 0 \<and> sextets (stripPadding s) \<noteq> None)"

section \<open>The runtime bridge (\<open>templates/lwcWrapper.js\<close>)\<close>

text \<open>
  Library objects, the published root factory and React roots are opaque handles.
  A thrown value is either some value other than \<open>null\<close>/\<open>undefined\<close>, with the text of
  its \<open>message\<close> and \<open>stack\<close> properties, or \<open>null\<close>/\<open>undefined\<close> itself.
\<close>

type_synonym lib = nat
type_synonym factory = nat
type_synonym root = nat

datatype thrown = Thrown string string | Nullish

text \<open>The hook is \<open>async\<close>: a call always returns a promise, fulfilled or rejected.\<close>

datatype completion = Fulfilled | Rejected thrown

text \<open>
  The two global slots the bridge touches.  \<open>None\<close> is a slot that is \<open>undefined\<close>
  (or holds any other falsy value: the code's tests \<open>!window.process\<close> and
  \<open>!ReactAppComponent\<close> do not tell them apart); a process object is the table of its
  \<open>env\<close> entries, an entry being a string or \<open>undefined\<close>.
\<close>

type_synonym process_object = "(string \<times> string option) list"

record window =
  process :: "process_object option"
  ReactAppComponent :: "factory option"

record component =
  hasRendered :: bool
  reactInstance :: "lib option"
  reactDOMInstance :: "lib option"
  reactRoot :: "root option"

definition newComponent :: component where
  "newComponent =
     \<lparr>hasRendered = False, reactInstance = None, reactDOMInstance = None, reactRoot = None\<rparr>"

datatype dom_call =
    QuerySelector | AttachShadow | CreateStyle | AppendStyle | CreateDiv | AppendDiv
  | ReactCreateElement | CreateRoot | RootRender | RootUnmount

datatype event =
    ConsoleLog string
  | ConsoleWarn string
  | ConsoleError string
  | AtobCall
  | NewFunctionCall
  | ScriptCall
  | Dom dom_call

text \<open>Log lines are given without their leading emoji.\<close>

text \<open>
  What the host page supplies to one invocation: the two imported library objects
  (\<open>None\<close> when the import is \<open>undefined\<close>), the imported chunk constants, the outcome
  of compiling a source text with \<open>new Function\<close> (a \<open>SyntaxError\<close>, or a function
  from the two libraries and the globals to the globals it leaves and what it threw),
  whether the template holds the container, which DOM and React calls throw, and the
  root that \<open>createRoot\<close> returns.
\<close>

type_synonym script = "lib option \<Rightarrow> lib option \<Rightarrow> window \<Rightarrow> thrown option \<times> window"

record host =
  React :: "lib option"
  ReactDOM :: "lib option"
  chunkConstants :: "string list"
  newFunction :: "js_string \<Rightarrow> thrown + script"
  containerFound :: bool
  domThrows :: "dom_call \<Rightarrow> thrown option"
  newRoot :: root

text \<open>The state one invocation works on, with the calls and log lines it has made.\<close>

record runtime =
  inst :: component
  gwin :: window
  trace :: "event list"

type_synonym action = "runtime \<Rightarrow> thrown option \<times> runtime"

text \<open>Statements in sequence: the first one that throws ends the block.\<close>

fun runAll :: "('s \<Rightarrow> 'e option \<times> 's) list \<Rightarrow> 's \<Rightarrow> 'e option \<times> 's" where
  "runAll [] s = (None, s)"
| "runAll (a # as) s = (case a s of (Some e, s') \<Rightarrow> (Some e, s') | (None, s') \<Rightarrow> runAll as s')"

definition emit :: "event \<Rightarrow> runtime \<Rightarrow> runtime" where
  "emit ev s = s\<lparr>trace := trace s @ [ev]\<rparr>"

definition consoleLog :: "string \<Rightarrow> action" where
  "consoleLog msg s = (None, emit (ConsoleLog msg) s)"

definition consoleError :: "string \<Rightarrow> action" where
  "consoleError msg s = (None, emit (ConsoleError msg) s)"

definition domCall :: "host \<Rightarrow> dom_call \<Rightarrow> action" where
  "domCall h d s = (domThrows h d, emit (Dom d) s)"

definition showBool :: "bool \<Rightarrow> string" where
  "showBool b = (if b then ''true'' else ''false'')"

text \<open>\<^verbatim>\<open>this._reactInstance = React; this._reactDOMInstance = ReactDOM;\<close>\<close>

definition acquireLibraries :: "host \<Rightarrow> action" where
  "acquireLibraries h s =
     (None, s\<lparr>inst := (inst s)\<lparr>reactInstance := React h, reactDOMInstance := ReactDOM h\<rparr>\<rparr>)"

text \<open>\<^verbatim>\<open>if (!window.process) { window.process = { env: { ... } }; }\<close>\<close>

definition defaultProcess :: process_object where
  "defaultProcess =
     [(''NODE_ENV'', Some ''production''),
      (''REACT_APP_SF_ACCESS_TOKEN'', None),
      (''REACT_APP_SF_INSTANCE_URL'', None),
      (''REACT_APP_SF_USERNAME'', Some ''''),
      (''REACT_APP_SF_ORG_ALIAS'', Some ''''),
      (''REACT_APP_USE_MOCK_DATA'', Some ''true'')]"

definition defineProcessEnv :: "window \<Rightarrow> window" where
  "defineProcessEnv w = (if process w = None then w\<lparr>process := Some defaultProcess\<rparr> else w)"

definition defineProcess :: action where
  "defineProcess s = (None, s\<lparr>gwin := defineProcessEnv (gwin s)\<rparr>)"

text \<open>
  The substituted \<open>COMPILED_REACT_FUNC\<close>:
  \<^verbatim>\<open>const encodedCode = chunk0 + chunk1 + ...;
  const decodedCode = atob(encodedCode);
  const scriptFunc = new Function('React', 'ReactDOM', decodedCode);
  scriptFunc(this._reactInstance, this._reactDOMInstance);\<close>
\<close>

definition decodeAndExecute :: "host \<Rightarrow> action" where
  "decodeAndExecute h s =
     (case atob (concat (chunkConstants h)) of
        None \<Rightarrow> (Some (Thrown ''The string to be decoded is not correctly encoded.''
                          ''InvalidCharacterError''), emit AtobCall s)
      | Some decodedCode \<Rightarrow>
          (case newFunction h decodedCode of
             Inl syntaxError \<Rightarrow> (Some syntaxError, emit NewFunctionCall (emit AtobCall s))
           | Inr scriptFunc \<Rightarrow>
               (case scriptFunc (reactInstance (inst s)) (reactDOMInstance (inst s)) (gwin s) of
                  (t, w') \<Rightarrow>
                    (t, (emit ScriptCall (emit NewFunctionCall (emit AtobCall s)))\<lparr>gwin := w'\<rparr>))))"

text \<open>\<^verbatim>\<open>if (!ReactAppComponent) { throw new Error('ReactAppComponent not found. ...'); }\<close>\<close>

definition requireFactory :: action where
  "requireFactory s =
     (case ReactAppComponent (gwin s) of
        None \<Rightarrow> (Some (Thrown ''ReactAppComponent not found. Check webpack compilation.'' ''Error''), s)
      | Some f \<Rightarrow> (None, s))"

text \<open>\<^verbatim>\<open>const container = this.template.querySelector('[data-id="app"]');
  if (!container) { throw new Error('Container element with data-id="app" not found'); }\<close>\<close>

definition queryContainer :: "host \<Rightarrow> action" where
  "queryContainer h s =
     (if containerFound h then (None, emit (Dom QuerySelector) s)
      else (Some (Thrown ''Container element with data-id=app not found'' ''Error''),
            emit (Dom QuerySelector) s))"

text \<open>\<^verbatim>\<open>this._reactRoot = this._reactDOMInstance.createRoot(shadowContainer);\<close>\<close>

definition createRoot :: "host \<Rightarrow> action" where
  "createRoot h s =
     (case domThrows h CreateRoot of
        Some e \<Rightarrow> (Some e, emit (Dom CreateRoot) s)
      | None \<Rightarrow> (None, (emit (Dom CreateRoot) s)\<lparr>inst := (inst s)\<lparr>reactRoot := Some (newRoot h)\<rparr>\<rparr>))"

definition setHasRendered :: action where
  "setHasRendered s = (None, s\<lparr>inst := (inst s)\<lparr>hasRendered := True\<rparr>\<rparr>)"

text \<open>The body of \<open>if (this._reactInstance && this._reactDOMInstance) { ... }\<close>.\<close>

definition mountBody :: "host \<Rightarrow> action" where
  "mountBody h =
     runAll
      [consoleLog ''Decoding and executing React bundle...'',
       defineProcess,
       (\<lambda>s. consoleLog (''process.env defined: '' @ showBool (process (gwin s) \<noteq> None)) s),
       decodeAndExecute h,
       consoleLog ''Bundle executed'',
       consoleLog ''Looking for ReactAppComponent on window...'',
       (\<lambda>s. consoleLog (''ReactAppComponent found: '' @
                showBool (ReactAppComponent (gwin s) \<noteq> None)) s),
       (\<lambda>s. consoleLog (''ReactAppComponent type: '' @
                (if ReactAppComponent (gwin s) \<noteq> None then ''function'' else ''undefined'')) s),
       requireFactory,
       consoleLog ''Finding container element...'',
       queryContainer h,
       consoleLog ''Container found, attaching shadow DOM...'',
       domCall h AttachShadow,
       consoleLog ''Injecting styles...'',
       domCall h CreateStyle,
       domCall h AppendStyle,
       consoleLog ''Creating shadow container...'',
       domCall h CreateDiv,
       domCall h AppendDiv,
       consoleLog ''Creating React element with shadow root support...'',
       domCall h ReactCreateElement,
       consoleLog ''Creating React root and rendering...'',
       createRoot h,
       domCall h RootRender,
       setHasRendered,
       consoleLog ''React app rendered successfully'']"

text \<open>The \<open>try\<close> block of \<open>renderedCallback\<close>.\<close>

definition tryBlock :: "host \<Rightarrow> action" where
  "tryBlock h =
     runAll
      [consoleLog ''LWC renderedCallback started'',
       acquireLibraries h,
       (\<lambda>s. consoleLog (''React loaded: '' @ showBool (reactInstance (inst s) \<noteq> None)) s),
       (\<lambda>s. consoleLog (''ReactDOM loaded: '' @ showBool (reactDOMInstance (inst s) \<noteq> None)) s),
       (\<lambda>s. if reactInstance (inst s) \<noteq> None \<and> reactDOMInstance (inst s) \<noteq> None
            then mountBody h s
            else runAll
                  [consoleError ''React or ReactDOM not available'',
                   consoleError (''React: '' @ showBool (reactInstance (inst s) \<noteq> None)),
                   consoleError (''ReactDOM: '' @ showBool (reactDOMInstance (inst s) \<noteq> None))] s)]"

text \<open>
  The \<open>catch (error)\<close> block: the first line logs the value itself; the next two read
  \<open>error.message\<close> and \<open>error.stack\<close>, which is a \<open>TypeError\<close> on \<open>null\<close> or
  \<open>undefined\<close>, raised inside the handler and so rejecting the hook's promise.
\<close>

definition catchBlock :: "thrown \<Rightarrow> runtime \<Rightarrow> completion \<times> runtime" where
  "catchBlock err s =
     (case err of
        Thrown msg stack \<Rightarrow>
          (Fulfilled,
           emit (ConsoleError (''Error stack: '' @ stack))
            (emit (ConsoleError (''Error message: '' @ msg))
              (emit (ConsoleError (''Error rendering React app: '' @ msg)) s)))
      | Nullish \<Rightarrow>
          (Rejected (Thrown ''Cannot read properties of undefined (reading message)'' ''TypeError''),
           emit (ConsoleError ''Error rendering React app: undefined'') s))"

definition alreadyRendered :: event where
  "alreadyRendered = ConsoleLog ''Already rendered, skipping''"

definition renderedCallback ::
  "host \<Rightarrow> component \<times> window \<Rightarrow> completion \<times> (component \<times> window) \<times> event list" where
  "renderedCallback h cw =
     (if \<not> hasRendered (fst cw) then
        (case tryBlock h \<lparr>inst = fst cw, gwin = snd cw, trace = []\<rparr> of
           (None, s) \<Rightarrow> (Fulfilled, (inst s, gwin s), trace s)
         | (Some err, s) \<Rightarrow>
             (case catchBlock err s of (r, s') \<Rightarrow> (r, (inst s', gwin s'), trace s')))
      else (Fulfilled, cw, [alreadyRendered]))"

text \<open>The host invoking the hook once per element of a list of situations.\<close>

fun invocations ::
  "host list \<Rightarrow> component \<times> window \<Rightarrow> (component \<times> window) \<times> event list" where
  "invocations [] cw = (cw, [])"
| "invocations (h # hs) cw =
     (case renderedCallback h cw of
        (r, cw', evs) \<Rightarrow> (case invocations hs cw' of (cw'', evs') \<Rightarrow> (cw'', evs @ evs')))"

text \<open>\<open>disconnectedCallback\<close>: the handler logs the value only.\<close>

definition disconnectedCallback :: "host \<Rightarrow> component \<Rightarrow> event list" where
  "disconnectedCallback h c =
     (if hasRendered c \<and> reactRoot c \<noteq> None then
        (case domThrows h RootUnmount of
           None \<Rightarrow> [Dom RootUnmount, ConsoleLog ''React app unmounted successfully'']
         | Some e \<Rightarrow> [Dom RootUnmount, ConsoleError ''Error unmounting React app''])
      else [])"

text \<open>The calls and log lines of an invocation that mounts.\<close>

definition mountTrace :: "event list" where
  "mountTrace =
  [ConsoleLog ''LWC renderedCallback started'',
   ConsoleLog ''React loaded: true'', ConsoleLog ''ReactDOM loaded: true'',
   ConsoleLog ''Decoding and executing React bundle...'',
   ConsoleLog ''process.env defined: true'', AtobCall, NewFunctionCall,
   ScriptCall, ConsoleLog ''Bundle executed'',
   ConsoleLog ''Looking for ReactAppComponent on window...'',
   ConsoleLog ''ReactAppComponent found: true'',
   ConsoleLog ''ReactAppComponent type: function'',
   ConsoleLog ''Finding container element...'', Dom QuerySelector,
   ConsoleLog ''Container found, attaching shadow DOM...'',
   Dom AttachShadow, ConsoleLog ''Injecting styles...'', Dom CreateStyle,
   Dom AppendStyle, ConsoleLog ''Creating shadow container...'',
   Dom CreateDiv, Dom AppendDiv,
   ConsoleLog ''Creating React element with shadow root support...'',
   Dom ReactCreateElement,
   ConsoleLog ''Creating React root and rendering...'', Dom CreateRoot,
   Dom RootRender, ConsoleLog ''React app rendered successfully'']"

text \<open>
  Hosts and globals to run the bridge on: a host on which every step succeeds, the same
  host with a bundle whose top-level code is \<open>throw undefined\<close>, a page without and a
  page with a \<open>window.process\<close> of its own.
\<close>

definition okHost :: host where
  "okHost = \<lparr>React = Some 1, ReactDOM = Some 2, chunkConstants = [''QQ==''],
     newFunction = (\<lambda>code. Inr (\<lambda>r d w. (None, w\<lparr>ReactAppComponent := Some 7\<rparr>))),
     containerFound = True, domThrows = (\<lambda>d. None), newRoot = 3\<rparr>"

definition throwingHost :: host where
  "throwingHost = okHost\<lparr>newFunction := (\<lambda>code. Inr (\<lambda>r d w. (Some Nullish, w)))\<rparr>"

definition emptyWindow :: window where
  "emptyWindow = \<lparr>process = None, ReactAppComponent = None\<rparr>"

definition hostWindow :: window where
  "hostWindow = \<lparr>process = Some [(''NODE_ENV'', Some ''development'')], ReactAppComponent = None\<rparr>"


section \<open>The build pipeline (\<open>scripts/lwcWrapperGenerator.js\<close>)\<close>

text \<open>A promise once it has settled, and what webpack hands to its callback:
  \<open>err\<close>, or stats with errors (\<open>stats.compilation.errors[0]\<close>), or clean stats.\<close>

datatype 'a settled = Resolve 'a | Reject error

datatype webpack_outcome = CompilerError error | StatsHasErrors error | StatsOk

text \<open>
  What a run is given: \<open>__dirname\<close>, the generator's \<open>outputDir\<close> and
  \<open>componentName\<close>, the webpack run (from the entry path, the output path and the file
  system to the outcome and the file system it leaves), whether
  \<open>require('mini-css-extract-plugin')\<close> finds the module, and what other processes do
  to the file system between the directory walk of the fallback and its reads.
\<close>

record build_env =
  dirname :: path
  outputDir :: path
  componentName :: string
  webpack :: "path \<Rightarrow> path \<Rightarrow> fsnode \<Rightarrow> webpack_outcome \<times> fsnode"
  pluginInstalled :: bool
  interference :: "fsnode \<Rightarrow> fsnode"

text \<open>\<open>path.join(__dirname, '../name')\<close>.\<close>

definition sibling :: "path \<Rightarrow> string \<Rightarrow> path" where
  "sibling dir name = butlast dir @ [name]"

text \<open>The state a stage works on: the file system and the console.\<close>

record build =
  bfs :: fsnode
  blog :: "event list"

definition logged :: "event \<Rightarrow> build \<Rightarrow> build" where
  "logged ev s = s\<lparr>blog := blog s @ [ev]\<rparr>"

text \<open>\<^verbatim>\<open>if (!fs.existsSync(dir)) { fs.mkdirSync(dir, { recursive: true }); }\<close>\<close>

definition ensureDir :: "path \<Rightarrow> build \<Rightarrow> error option \<times> build" where
  "ensureDir dir s =
     (if \<not> existsSync (bfs s) dir then
        (case mkdirSync (bfs s) dir of Inl e \<Rightarrow> (Some e, s) | Inr fs' \<Rightarrow> (None, s\<lparr>bfs := fs'\<rparr>))
      else (None, s))"

definition writeFile :: "path \<Rightarrow> string \<Rightarrow> build \<Rightarrow> error option \<times> build" where
  "writeFile p content s =
     (case writeFileSync (bfs s) p content of
        Inl e \<Rightarrow> (Some e, s)
      | Inr fs' \<Rightarrow> (None, s\<lparr>bfs := fs'\<rparr>))"

subsection \<open>\<open>compileReactComponents\<close>\<close>

definition entryContent :: string where
  "entryContent =
     ''\<newline>import React from 'react';\<newline>import App from '../src/App.js';\<newline>\<newline>'' @
     ''// Wrap App to support MUI in Shadow DOM\<newline>function AppWrapper({ shadowRoot }) {\<newline>'' @
     ''  // If shadowRoot is provided and MUI is used, set up emotion cache\<newline>'' @
     ''  if (shadowRoot && typeof window !== 'undefined') {\<newline>    try {\<newline>'' @
     ''      // Try to import emotion cache for MUI shadow DOM support\<newline>'' @
     ''      const createCache = require('@emotion/cache').default;\<newline>'' @
     ''      const CacheProvider = require('@emotion/react').CacheProvider;\<newline>      \<newline>'' @
     ''      const cache = createCache({\<newline>        key: 'css',\<newline>        prepend: true,\<newline>'' @
     ''        container: shadowRoot,\<newline>      });\<newline>      \<newline>'' @
     ''      return React.createElement(CacheProvider, { value: cache }, \<newline>'' @
     ''        React.createElement(App)\<newline>      );\<newline>    } catch (e) {\<newline>'' @
     ''      console.log('@emotion/cache not available, using App without emotion cache');\<newline>'' @
     ''      return React.createElement(App);\<newline>    }\<newline>  }\<newline>  \<newline>'' @
     ''  return React.createElement(App);\<newline>}\<newline>\<newline>'' @
     ''// Export the wrapped App component for LWC usage\<newline>'' @
     ''console.log('Entry file executing, App:', App);\<newline>'' @
     ''window.ReactAppComponent = AppWrapper;\<newline>'' @
     ''console.log('window.ReactAppComponent set:', !!window.ReactAppComponent);\<newline>      ''"

text \<open>
  The callback given to webpack (lines 133--155): an error rejects and returns; otherwise
  the compiled file is read, the temporary directory removed and the text resolved; a
  failing read rejects from the \<open>catch\<close>.
\<close>

definition reactCallback ::
  "path \<Rightarrow> webpack_outcome \<Rightarrow> build \<Rightarrow> string settled \<times> build" where
  "reactCallback tempDir outcome s =
     (case outcome of
        CompilerError error \<Rightarrow> (Reject error, logged (ConsoleError ''Webpack compilation failed'') s)
      | StatsHasErrors error \<Rightarrow> (Reject error, logged (ConsoleError ''Webpack compilation failed'') s)
      | StatsOk \<Rightarrow>
          (case readFileSync (bfs s) (tempDir @ [''compiled-react.js'']) of
             Inl readError \<Rightarrow>
               (Reject readError, logged (ConsoleError ''Error reading compiled output'') s)
           | Inr compiledJS \<Rightarrow>
               (Resolve compiledJS,
                logged (ConsoleLog ''React components compiled successfully with webpack'')
                  (s\<lparr>bfs := rmSync (bfs s) tempDir\<rparr>))))"

text \<open>The executor of the promise: an exception thrown before webpack is started
  rejects the promise.\<close>

definition compileReactComponents :: "build_env \<Rightarrow> build \<Rightarrow> string settled \<times> build" where
  "compileReactComponents env s =
     (let tempDir = sibling (dirname env) ''temp-build'';
          tempEntryPath = tempDir @ [''lwc-entry.js'']
      in case runAll [ensureDir tempDir, writeFile tempEntryPath entryContent, ensureDir tempDir] s of
           (Some e, s') \<Rightarrow> (Reject e, s')
         | (None, s') \<Rightarrow>
             (case webpack env tempEntryPath tempDir (bfs s') of
                (outcome, fs') \<Rightarrow> reactCallback tempDir outcome (s'\<lparr>bfs := fs'\<rparr>)))"

subsection \<open>\<open>findCSSFiles\<close> and \<open>compileStyles\<close>\<close>

definition endsWith :: "string \<Rightarrow> string \<Rightarrow> bool" where
  "endsWith s ending = (length ending \<le> length s \<and> drop (length s - length ending) s = ending)"

text \<open>
  The walk over the entries of \<open>dir\<close>, in \<open>readdirSync\<close> order: a directory is walked
  before the next entry is looked at, a file whose name ends in \<open>.css\<close> is pushed on
  the shared \<open>fileList\<close>.
\<close>

fun collectCSS :: "path \<Rightarrow> (string \<times> fsnode) list \<Rightarrow> path list \<Rightarrow> path list" where
  "collectCSS dir [] fileList = fileList"
| "collectCSS dir ((file, Dir sub) # files) fileList =
     collectCSS dir files (collectCSS (dir @ [file]) sub fileList)"
| "collectCSS dir ((file, File c) # files) fileList =
     collectCSS dir files (if endsWith file ''.css'' then fileList @ [dir @ [file]] else fileList)"

definition findCSSFiles :: "fsnode \<Rightarrow> path \<Rightarrow> error + path list" where
  "findCSSFiles fs dir =
     (case lookup fs dir of
        None \<Rightarrow> Inl (ENOENT dir)
      | Some (File c) \<Rightarrow> Inl (ENOTDIR dir)
      | Some (Dir files) \<Rightarrow> Inr (collectCSS dir files []))"

text \<open>\<open>arr.join(sep)\<close>.\<close>

fun join :: "string \<Rightarrow> string list \<Rightarrow> string" where
  "join sep [] = []"
| "join sep [x] = x"
| "join sep (x # y # xs) = x @ sep @ join sep (y # xs)"

text \<open>
  \<open>path.relative(tempDir, cssFile)\<close> with forward slashes: both paths lie under the
  parent of \<open>__dirname\<close>, the temporary directory directly.
\<close>

definition relativeToTemp :: "path \<Rightarrow> path \<Rightarrow> string" where
  "relativeToTemp base cssFile = join ''/'' (''..'' # drop (length base) cssFile)"

definition cssImports :: "path \<Rightarrow> path list \<Rightarrow> string" where
  "cssImports base cssFiles =
     join ''\<newline>'' (map (\<lambda>cssFile. ''import '' @ [CHR 0x27] @ relativeToTemp base cssFile @ [CHR 0x27] @ '';'')
        cssFiles)"

text \<open>
  \<^verbatim>\<open>cssFiles.forEach(cssFile => {
    if (fs.existsSync(cssFile)) { cssContent += fs.readFileSync(cssFile, 'utf8') + '\n'; }
  });\<close>
\<close>

fun readCSSFiles :: "fsnode \<Rightarrow> path list \<Rightarrow> string \<Rightarrow> error + string" where
  "readCSSFiles fs [] cssContent = Inr cssContent"
| "readCSSFiles fs (cssFile # cssFiles) cssContent =
     (if existsSync fs cssFile then
        (case readFileSync fs cssFile of
           Inl e \<Rightarrow> Inl e
         | Inr text \<Rightarrow> readCSSFiles fs cssFiles (cssContent @ text @ ''\<newline>''))
      else readCSSFiles fs cssFiles cssContent)"

text \<open>The \<open>try\<close> block of the callback: the extracted file if webpack wrote one, the
  fallback otherwise.  The result is the text, or what was thrown.\<close>

definition readStyles :: "build_env \<Rightarrow> path \<Rightarrow> build \<Rightarrow> (error + string) \<times> build" where
  "readStyles env tempDir s =
     (let extractedCSSPath = tempDir @ [''extracted-styles.css'']
      in if existsSync (bfs s) extractedCSSPath then (readFileSync (bfs s) extractedCSSPath, s)
         else
           (case findCSSFiles (bfs s) (sibling (dirname env) ''src'') of
              Inl e \<Rightarrow> (Inl e, s)
            | Inr cssFiles \<Rightarrow>
                (let s' = (logged (ConsoleLog (''Using fallback: reading '' @ showNat (length cssFiles)
                                                @ '' CSS file(s) directly'')) s)
                            \<lparr>bfs := interference env (bfs s)\<rparr>
                 in (readCSSFiles (bfs s') cssFiles '''', s'))))"

definition stylesCallback ::
  "build_env \<Rightarrow> path \<Rightarrow> webpack_outcome \<Rightarrow> build \<Rightarrow> string settled \<times> build" where
  "stylesCallback env tempDir outcome s =
     (case outcome of
        CompilerError error \<Rightarrow> (Reject error, logged (ConsoleError ''CSS compilation failed'') s)
      | StatsHasErrors error \<Rightarrow> (Reject error, logged (ConsoleError ''CSS compilation failed'') s)
      | StatsOk \<Rightarrow>
          (case readStyles env tempDir s of
             (Inl readError, s') \<Rightarrow>
               (Reject readError, logged (ConsoleError ''Error reading compiled CSS'') s')
           | (Inr cssContent, s') \<Rightarrow>
               (Resolve cssContent,
                logged (ConsoleLog ''CSS styles compiled successfully'')
                  (s'\<lparr>bfs := rmSync (bfs s') tempDir\<rparr>))))"

definition requirePlugin :: "build_env \<Rightarrow> build \<Rightarrow> error option \<times> build" where
  "requirePlugin env s =
     (if pluginInstalled env then (None, s)
      else (Some (ModuleNotFound ''mini-css-extract-plugin''), s))"

definition compileStyles :: "build_env \<Rightarrow> build \<Rightarrow> string settled \<times> build" where
  "compileStyles env s =
     (let tempDir = sibling (dirname env) ''temp-css-build'';
          srcDir = sibling (dirname env) ''src''
      in case findCSSFiles (bfs s) srcDir of
           Inl e \<Rightarrow> (Reject e, s)
         | Inr cssFiles \<Rightarrow>
             (let tempEntryPath = tempDir @ [''css-entry.js''];
                  s0 = logged (ConsoleLog (''Found '' @ showNat (length cssFiles)
                                            @ '' CSS file(s) to compile'')) s
              in case runAll [ensureDir tempDir,
                              writeFile tempEntryPath (cssImports (butlast (dirname env)) cssFiles),
                              requirePlugin env] s0 of
                   (Some e, s') \<Rightarrow> (Reject e, s')
                 | (None, s') \<Rightarrow>
                     (case webpack env tempEntryPath tempDir (bfs s') of
                        (outcome, fs') \<Rightarrow> stylesCallback env tempDir outcome (s'\<lparr>bfs := fs'\<rparr>))))"

subsection \<open>The two auxiliary library components\<close>

text \<open>
  \<open>generateReactImport\<close> and \<open>generateReactDOMImport\<close>, and the functions under them,
  are the same code up to the names they mention; the model takes the library as an
  argument and gives each source function as an instance.
\<close>

datatype library = ReactLibrary | ReactDOMLibrary

definition libraryComponent :: "library \<Rightarrow> string" where
  "libraryComponent lib = (case lib of ReactLibrary \<Rightarrow> ''react'' | ReactDOMLibrary \<Rightarrow> ''reactdom'')"

definition libraryTitle :: "library \<Rightarrow> string" where
  "libraryTitle lib = (case lib of ReactLibrary \<Rightarrow> ''React'' | ReactDOMLibrary \<Rightarrow> ''ReactDOM'')"

definition libraryResource :: "library \<Rightarrow> path" where
  "libraryResource lib =
     (case lib of
        ReactLibrary \<Rightarrow> [''react'', ''umd'', ''react.production.min.js'']
      | ReactDOMLibrary \<Rightarrow> [''react-dom'', ''umd'', ''react-dom.production.min.js''])"

definition libraryProdPath :: "build_env \<Rightarrow> library \<Rightarrow> path" where
  "libraryProdPath env lib = sibling (dirname env) ''node_modules'' @ libraryResource lib"

definition libraryStub :: "library \<Rightarrow> string" where
  "libraryStub lib = ''// '' @ libraryTitle lib @ '' library not found''"

definition libraryNotFound :: "library \<Rightarrow> event" where
  "libraryNotFound lib =
     ConsoleWarn (libraryTitle lib @ '' production library not found in node_modules'')"

definition libraryJSContent :: "library \<Rightarrow> string \<Rightarrow> string" where
  "libraryJSContent lib reactLibrary =
     ''// Execute the '' @ libraryTitle lib @ '' library code\<newline>'' @ reactLibrary @
     ''\<newline>\<newline>// Export '' @ libraryTitle lib @ '' instance\<newline>export default window.'' @
     libraryTitle lib @ '';''"

text \<open>
  \<open>generateReactJSFile\<close> / \<open>generateReactDOMJSFile\<close>: everything is inside one
  \<open>try\<close>, whose \<open>catch\<close> logs and returns, so the function never throws.
\<close>

definition generateLibraryJSFile :: "build_env \<Rightarrow> library \<Rightarrow> path \<Rightarrow> build \<Rightarrow> build" where
  "generateLibraryJSFile env lib componentDir s =
     (let caught = logged (ConsoleError (''Error generating '' @ libraryTitle lib @ '' JS file''))
      in case (if existsSync (bfs s) (libraryProdPath env lib) then
                 (case readFileSync (bfs s) (libraryProdPath env lib) of
                    Inl e \<Rightarrow> Inl e
                  | Inr text \<Rightarrow>
                      Inr (text, logged (ConsoleLog (''Embedded '' @ libraryTitle lib
                                                      @ '' production library'')) s))
               else Inr (libraryStub lib, logged (libraryNotFound lib) s)) of
           Inl e \<Rightarrow> caught s
         | Inr (reactLibrary, s1) \<Rightarrow>
             (case writeFile (componentDir @ [libraryComponent lib @ ''.js''])
                     (libraryJSContent lib reactLibrary) s1 of
                (Some e, s2) \<Rightarrow> caught s2
              | (None, s2) \<Rightarrow> s2))"

definition generateReactJSFile :: "build_env \<Rightarrow> path \<Rightarrow> build \<Rightarrow> build" where
  "generateReactJSFile env = generateLibraryJSFile env ReactLibrary"

definition generateReactDOMJSFile :: "build_env \<Rightarrow> path \<Rightarrow> build \<Rightarrow> build" where
  "generateReactDOMJSFile env = generateLibraryJSFile env ReactDOMLibrary"

definition libraryHTML :: "library \<Rightarrow> string" where
  "libraryHTML lib =
     ''<template>\<newline>    <!-- '' @ libraryTitle lib @
     '' ES module - no template needed -->\<newline></template>''"

definition libraryCSS :: "library \<Rightarrow> string" where
  "libraryCSS lib = ''.'' @ libraryComponent lib @ ''-component {\<newline>    display: none;\<newline>}''"

definition libraryMeta :: string where
  "libraryMeta =
     ''<?xml version=\"1.0\" encoding=\"UTF-8\"?>\<newline>'' @
     ''<LightningComponentBundle xmlns=\"http://soap.sforce.com/2006/04/metadata\">\<newline>'' @
     ''    <apiVersion>58.0</apiVersion>\<newline>'' @
     ''    <isExposed>false</isExposed>\<newline>'' @
     ''    <targets>\<newline>'' @
     ''        <target>lightning__AppPage</target>\<newline>'' @
     ''        <target>lightning__RecordPage</target>\<newline>'' @
     ''        <target>lightning__HomePage</target>\<newline>'' @
     ''    </targets>\<newline>'' @
     ''</LightningComponentBundle>''"

text \<open>\<open>createOutputDirectory\<close>\<close>

definition createOutputDirectory :: "build_env \<Rightarrow> build \<Rightarrow> error option \<times> build" where
  "createOutputDirectory env =
     (let lwcDir = outputDir env @ [''lwc''];
          componentDir = lwcDir @ [componentName env]
      in runAll [ensureDir (outputDir env), ensureDir lwcDir, ensureDir componentDir])"

text \<open>\<open>generateReactLWCComponent\<close> / \<open>generateReactDOMLWCComponent\<close>\<close>

definition generateLibraryLWCComponent ::
  "build_env \<Rightarrow> library \<Rightarrow> build \<Rightarrow> error option \<times> build" where
  "generateLibraryLWCComponent env lib =
     (let lwcDir = outputDir env @ [''lwc''];
          componentDir = lwcDir @ [libraryComponent lib]
      in runAll
          [ensureDir lwcDir,
           ensureDir componentDir,
           (\<lambda>s. (None, generateLibraryJSFile env lib componentDir s)),
           writeFile (componentDir @ [libraryComponent lib @ ''.html'']) (libraryHTML lib),
           writeFile (componentDir @ [libraryComponent lib @ ''.css'']) (libraryCSS lib),
           writeFile (componentDir @ [libraryComponent lib @ ''.js-meta.xml'']) libraryMeta])"

definition generateReactLWCComponent :: "build_env \<Rightarrow> build \<Rightarrow> error option \<times> build" where
  "generateReactLWCComponent env = generateLibraryLWCComponent env ReactLibrary"

definition generateReactDOMLWCComponent :: "build_env \<Rightarrow> build \<Rightarrow> error option \<times> build" where
  "generateReactDOMLWCComponent env = generateLibraryLWCComponent env ReactDOMLibrary"

text \<open>
  \<open>generateReactImport\<close> / \<open>generateReactDOMImport\<close>: the result object is
  \<open>{ success: true, outputDir, componentName }\<close> or \<open>{ success: false, error }\<close>.
\<close>

datatype generation_result = Success path string | Failure error

definition generateLibraryImport ::
  "build_env \<Rightarrow> library \<Rightarrow> build \<Rightarrow> generation_result \<times> build" where
  "generateLibraryImport env lib s =
     (case runAll [createOutputDirectory env, generateLibraryLWCComponent env lib] s of
        (Some error, s') \<Rightarrow>
          (Failure error,
           logged (ConsoleError (''Error generating '' @ libraryTitle lib @ '' LWC component'')) s')
      | (None, s') \<Rightarrow>
          (Success (outputDir env) (libraryComponent lib),
           logged (ConsoleLog (''Component name: '' @ libraryComponent lib))
            (logged (ConsoleLog (''Output directory: '' @ join ''/'' (outputDir env)))
              (logged (ConsoleLog (libraryTitle lib @ '' LWC component generated successfully!''))
                s'))))"

definition generateReactImport :: "build_env \<Rightarrow> build \<Rightarrow> generation_result \<times> build" where
  "generateReactImport env = generateLibraryImport env ReactLibrary"

definition generateReactDOMImport :: "build_env \<Rightarrow> build \<Rightarrow> generation_result \<times> build" where
  "generateReactDOMImport env = generateLibraryImport env ReactDOMLibrary"

text \<open>\<open>generateReactImports\<close>\<close>

definition generateReactImports :: "build_env \<Rightarrow> build \<Rightarrow> generation_result list \<times> build" where
  "generateReactImports env s =
     (case generateReactImport env s of
        (reactResult, s1) \<Rightarrow>
          (case generateReactDOMImport env s1 of
             (domResult, s2) \<Rightarrow> ([reactResult, domResult], s2)))"

subsection \<open>Notions the statements use\<close>

text \<open>The text of a file (empty when there is none), and being a directory.\<close>

definition fileText :: "fsnode \<Rightarrow> path \<Rightarrow> string" where
  "fileText fs p = (case lookup fs p of Some (File c) \<Rightarrow> c | _ \<Rightarrow> [])"

definition isDirectory :: "fsnode \<Rightarrow> path \<Rightarrow> bool" where
  "isDirectory fs p = (case lookup fs p of Some (Dir es) \<Rightarrow> True | _ \<Rightarrow> False)"

text \<open>The walk of \<open>collectCSS\<close> without its accumulator: depth first, entries in
  directory order.\<close>

fun cssFilesIn :: "path \<Rightarrow> (string \<times> fsnode) list \<Rightarrow> path list" where
  "cssFilesIn dir [] = []"
| "cssFilesIn dir ((file, Dir sub) # files) = cssFilesIn (dir @ [file]) sub @ cssFilesIn dir files"
| "cssFilesIn dir ((file, File c) # files) =
     (if endsWith file ''.css'' then [dir @ [file]] else []) @ cssFilesIn dir files"

text \<open>``Separated by a single newline'', in the words of the specification.\<close>

definition separatedByNewline :: "string list \<Rightarrow> string" where
  "separatedByNewline contents = join ''\<newline>'' contents"

text \<open>No file stands where a directory of the path is needed.\<close>

definition clearPath :: "fsnode \<Rightarrow> path \<Rightarrow> bool" where
  "clearPath fs d = (\<forall>q \<in> set (prefixes d). lookup fs q = None \<or> isDirectory fs q)"

text \<open>The four files of an auxiliary component.\<close>

definition libraryFiles :: "library \<Rightarrow> string list" where
  "libraryFiles lib =
     [libraryComponent lib @ ''.js'', libraryComponent lib @ ''.html'',
      libraryComponent lib @ ''.css'', libraryComponent lib @ ''.js-meta.xml'']"

text \<open>
  A project to run the stages on: one stylesheet, no \<open>node_modules\<close>, no output yet;
  a webpack run that writes nothing, and one that reports a compiler error.
\<close>

definition noOutputWebpack :: "path \<Rightarrow> path \<Rightarrow> fsnode \<Rightarrow> webpack_outcome \<times> fsnode" where
  "noOutputWebpack entry out fs = (StatsOk, fs)"

definition failingWebpack :: "path \<Rightarrow> path \<Rightarrow> fsnode \<Rightarrow> webpack_outcome \<times> fsnode" where
  "failingWebpack entry out fs = (CompilerError (WebpackFailure ''Module parse failed''), fs)"

definition projectTree :: fsnode where
  "projectTree = Dir [(''scripts'', Dir []), (''src'', Dir [(''a.css'', File ''a'')])]"

definition exampleEnv :: build_env where
  "exampleEnv = \<lparr>dirname = [''scripts''], outputDir = [''dist''], componentName = ''appInterop'',
     webpack = noOutputWebpack, pluginInstalled = True, interference = (\<lambda>fs. fs)\<rparr>"

section \<open>Chunk encoder: the loop in closed form\<close>

lemma chunkSize_pos: "0 < chunkSize" by (simp add: chunkSize_def)

lemma ceil_step:
  fixes n c :: nat
  assumes "0 < c" "0 < n"
  shows "(n + c - 1) div c = Suc ((n - c + c - 1) div c)"
proof (cases "n \<le> c")
  case True
  have "c \<le> n + c - 1" "n + c - 1 < 2 * c" using assms True by auto
  then have "(n + c - 1) div c = 1"
    by (intro div_nat_eqI) auto
  moreover have "(n - c + c - 1) div c = 0" using True assms by simp
  ultimately show ?thesis by simp
next
  case False
  define m where "m = n - c + c - 1"
  have "n + c - 1 = m + c" using False assms by (simp add: m_def)
  moreover have "(m + c) div c = Suc (m div c)" using assms(1) by (simp add: div_add_self2)
  ultimately show ?thesis by (simp add: m_def)
qed

lemma numChunks_step: "0 < n \<Longrightarrow> numChunks n = Suc (numChunks (n - chunkSize))"
  unfolding numChunks_def by (rule ceil_step[OF chunkSize_pos])

lemma numChunks_0: "numChunks 0 = 0"
  using chunkSize_pos by (simp add: numChunks_def)

lemma chunkLoop_closed:
  "chunkLoop e i acc =
     acc @ map (\<lambda>k. take chunkSize (drop (i + k * chunkSize) e)) [0..<numChunks (length e - i)]"
proof (induction e i acc rule: chunkLoop.induct)
  case (1 e i acc)
  show ?case
  proof (cases "i < length e")
    case True
    then have pos: "0 < length e - i" by simp
    have n: "numChunks (length e - i) = Suc (numChunks (length e - (i + chunkSize)))"
      using numChunks_step[OF pos] by simp
    have "chunkLoop e i acc = chunkLoop e (i + chunkSize) (acc @ [slice e i (i + chunkSize)])"
      using True by (subst chunkLoop.simps) simp
    also have "\<dots> = (acc @ [slice e i (i + chunkSize)]) @
        map (\<lambda>k. take chunkSize (drop (i + chunkSize + k * chunkSize) e)) [0..<numChunks (length e - (i + chunkSize))]"
      using 1 True by simp
    also have "\<dots> = acc @ map (\<lambda>k. take chunkSize (drop (i + k * chunkSize) e)) [0..<numChunks (length e - i)]"
      unfolding n by (simp add: slice_def upt_conv_Cons map_Suc_upt[symmetric] add.assoc comp_def del: upt_Suc)
    finally show ?thesis .
  next
    case False
    then have "numChunks (length e - i) = 0" by (simp add: numChunks_0)
    then show ?thesis using False by (subst chunkLoop.simps) simp
  qed
qed

lemma splitChunks_closed:
  "splitChunks e = map (\<lambda>k. take chunkSize (drop (k * chunkSize) e)) [0..<numChunks (length e)]"
  by (simp add: splitChunks_def chunkLoop_closed)

lemma concat_take_drop:
  "length e \<le> n * c \<Longrightarrow> concat (map (\<lambda>k. take c (drop (k * c) e)) [0..<n]) = e"
proof (induction n arbitrary: e)
  case 0 then show ?case by simp
next
  case (Suc n)
  have "concat (map (\<lambda>k. take c (drop (k * c) e)) [0..<Suc n])
      = take c e @ concat (map (\<lambda>k. take c (drop (k * c) (drop c e))) [0..<n])"
    by (simp add: upt_conv_Cons map_Suc_upt[symmetric] add.commute comp_def del: upt_Suc)
  also have "\<dots> = take c e @ drop c e" using Suc.IH[of "drop c e"] Suc.prems by simp
  finally show ?case by simp
qed

lemma ceil_covers:
  fixes n c :: nat
  assumes "0 < c"
  shows "n \<le> ((n + c - 1) div c) * c"
proof -
  have "n + c - 1 = ((n + c - 1) div c) * c + (n + c - 1) mod c" by simp
  moreover have "(n + c - 1) mod c < c" using assms by simp
  ultimately show ?thesis by linarith
qed

lemma numChunks_covers: "n \<le> numChunks n * chunkSize"
  unfolding numChunks_def by (rule ceil_covers[OF chunkSize_pos])

lemma concat_splitChunks: "concat (splitChunks e) = e"
  by (simp add: splitChunks_closed concat_take_drop numChunks_covers)

lemma length_splitChunks: "length (splitChunks e) = numChunks (length e)"
  by (simp add: splitChunks_closed)

section \<open>Base64: decoding what was encoded\<close>

lemma u8: "unat (a::8 word) < 256" using unsigned_less[of a, where ?'a = nat] by simp

lemma distinct_alphabet: "distinct base64Alphabet" by (simp add: base64Alphabet_def)
lemma length_alphabet: "length base64Alphabet = 64" by (simp add: base64Alphabet_def)

lemma indexOf_nth: "distinct xs \<Longrightarrow> n < length xs \<Longrightarrow> indexOf (xs ! n) xs = Some n"
proof (induction xs arbitrary: n)
  case Nil then show ?case by simp
next
  case (Cons x xs)
  show ?case
  proof (cases n)
    case 0 then show ?thesis by simp
  next
    case (Suc m)
    then have "xs ! m \<in> set xs" using Cons.prems by simp
    then have "xs ! m \<noteq> x" using Cons.prems by auto
    then show ?thesis using Suc Cons by simp
  qed
qed

lemma b64val_b64char: "b64val (b64char n) = Some (n mod 64)"
  unfolding b64val_def b64char_def
  by (rule indexOf_nth[OF distinct_alphabet]) (simp add: length_alphabet)

lemma b64char_in: "b64char n \<in> set base64Alphabet"
  unfolding b64char_def by (rule nth_mem) (simp add: length_alphabet)

lemma pad_not_in: "CHR ''='' \<notin> set base64Alphabet" by (simp add: base64Alphabet_def)
lemma ws_not_in: "c \<in> set base64Alphabet \<Longrightarrow> \<not> isAsciiWhitespace c"
  by (auto simp add: base64Alphabet_def isAsciiWhitespace_def)

lemma sext1: "of_nat ((unat a div 4) * 4 + ((unat a mod 4) * 16 + unat (b::8 word) div 16) div 16) = (a::8 word)"
proof -
  have "unat b div 16 < 16" using u8[of b] by simp
  then have "((unat a mod 4) * 16 + unat b div 16) div 16 = unat a mod 4" by simp
  then show ?thesis by simp
qed
lemma sext2: "of_nat ((((unat (a::8 word) mod 4) * 16 + unat b div 16) mod 16) * 16 + ((unat b mod 16) * 4 + unat (c::8 word) div 64) div 4) = (b::8 word)"
proof -
  have "unat c div 64 < 4" using u8[of c] by simp
  then have "((unat b mod 16) * 4 + unat c div 64) div 4 = unat b mod 16" by simp
  moreover have "unat b div 16 < 16" using u8[of b] by simp
  then have "((unat a mod 4) * 16 + unat b div 16) mod 16 = unat b div 16" by simp
  ultimately show ?thesis by simp
qed
lemma sext3: "of_nat ((((unat (b::8 word) mod 16) * 4 + unat c div 64) mod 4) * 64 + unat c mod 64) = (c::8 word)"
proof -
  have "unat c div 64 < 4" using u8[of c] by simp
  then have "((unat b mod 16) * 4 + unat c div 64) mod 4 = unat c div 64" by simp
  then show ?thesis by simp
qed
lemma b64char_ne_pad: "b64char n \<noteq> CHR ''=''"
  using b64char_in[of n] pad_not_in by metis

lemma length_toBase64_mod4: "length (toBase64 bs) mod 4 = 0"
  by (induction bs rule: toBase64.induct) simp_all

lemma length_toBase64: "length (toBase64 bs) = 4 * ((length bs + 2) div 3)"
proof (induction bs rule: toBase64.induct)
  case (4 a b c rest)
  have "(length (a # b # c # rest) + 2) div 3 = Suc ((length rest + 2) div 3)" by simp
  then show ?case using 4 by simp
qed simp_all

lemma toBase64_Nil_iff: "toBase64 bs = [] \<longleftrightarrow> bs = []"
  by (induction bs rule: toBase64.induct) simp_all

lemma stripPadding_append:
  assumes "length x mod 4 = 0" "length y mod 4 = 0" "y \<noteq> []"
  shows "stripPadding (x @ y) = x @ stripPadding y"
proof -
  have ly: "4 \<le> length y" using assms(2,3) by (cases y) (auto simp: mod_eq_0_iff_dvd dest: dvd_imp_le)
  have m: "length (x @ y) mod 4 = 0" using assms(1,2) by (simp add: mod_add_eq mod_eq_0_iff_dvd)
  have d2: "drop (length (x @ y) - 2) (x @ y) = drop (length y - 2) y" using ly by simp
  have d1: "drop (length (x @ y) - 1) (x @ y) = drop (length y - 1) y" using ly by simp
  have t2: "take (length (x @ y) - 2) (x @ y) = x @ take (length y - 2) y" using ly by simp
  have t1: "take (length (x @ y) - 1) (x @ y) = x @ take (length y - 1) y" using ly by simp
  have l2: "2 \<le> length (x @ y)" "1 \<le> length (x @ y)" "2 \<le> length y" "1 \<le> length y" using ly by simp_all
  consider (A) "drop (length y - 2) y = ''==''"
    | (B) "drop (length y - 2) y \<noteq> ''==''" "drop (length y - 1) y = ''=''"
    | (C) "drop (length y - 2) y \<noteq> ''==''" "drop (length y - 1) y \<noteq> ''=''" by blast
  then show ?thesis
  proof cases
    case A
    have "stripPadding (x @ y) = x @ take (length y - 2) y"
      by (simp only: stripPadding_def m d2 d1 t2 t1 l2 A if_True simp_thms)
    moreover have "stripPadding y = take (length y - 2) y"
      by (simp only: stripPadding_def assms(2) l2 A if_True simp_thms)
    ultimately show ?thesis by simp
  next
    case B
    have "stripPadding (x @ y) = x @ take (length y - 1) y"
      by (simp only: stripPadding_def m d2 d1 t2 t1 l2 B if_True if_False simp_thms)
    moreover have "stripPadding y = take (length y - 1) y"
      by (simp only: stripPadding_def assms(2) l2 B if_True if_False simp_thms)
    ultimately show ?thesis by simp
  next
    case C
    have "stripPadding (x @ y) = x @ y"
      by (simp only: stripPadding_def m d2 d1 t2 t1 l2 C if_True if_False simp_thms)
    moreover have "stripPadding y = y"
      by (simp only: stripPadding_def assms(2) l2 C if_True if_False simp_thms)
    ultimately show ?thesis by simp
  qed
qed

lemma stripPadding_toBase64: "stripPadding (toBase64 bs) = encBody bs"
proof (induction bs rule: toBase64.induct)
  case 1 show ?case by (simp add: stripPadding_def)
next
  case (2 a) show ?case by (simp add: stripPadding_def)
next
  case (3 a b) show ?case by (simp add: stripPadding_def b64char_ne_pad)
next
  case (4 a b c rest)
  show ?case
  proof (cases "rest = []")
    case True
    then show ?thesis by (simp add: stripPadding_def b64char_ne_pad)
  next
    case False
    then have ne: "toBase64 rest \<noteq> []" by (simp add: toBase64_Nil_iff)
    have "stripPadding ([b64char (unat a div 4), b64char ((unat a mod 4) * 16 + unat b div 16),
      b64char ((unat b mod 16) * 4 + unat c div 64), b64char (unat c mod 64)] @ toBase64 rest)
      = [b64char (unat a div 4), b64char ((unat a mod 4) * 16 + unat b div 16),
      b64char ((unat b mod 16) * 4 + unat c div 64), b64char (unat c mod 64)] @ stripPadding (toBase64 rest)"
      by (rule stripPadding_append) (simp_all add: length_toBase64_mod4 ne)
    then show ?thesis using 4 by simp
  qed
qed

lemma length_encBody_mod4: "length (encBody bs) mod 4 \<noteq> Suc 0"
  by (induction bs rule: encBody.induct) simp_all

lemma sextets_encBody: "map_option fromSextets (sextets (encBody bs)) = Some bs"
proof (induction bs rule: encBody.induct)
  case 1 show ?case by simp
next
  case (2 a)
  have "unat a div 4 < 64" using u8[of a] by simp
  then show ?case using sext1[of a 0] by (simp add: b64val_b64char)
next
  case (3 a b)
  have "unat a div 4 < 64" using u8[of a] by simp
  moreover have "unat b div 16 < 16" using u8[of b] by simp
  then have "(unat a mod 4) * 16 + unat b div 16 < 64" by simp
  ultimately show ?case using sext1[of a b] sext2[of a b 0] by (simp add: b64val_b64char)
next
  case (4 a b c rest)
  have "unat a div 4 < 64" using u8[of a] by simp
  moreover have "unat b div 16 < 16" using u8[of b] by simp
  then have "(unat a mod 4) * 16 + unat b div 16 < 64" by simp
  moreover have "unat c div 64 < 4" using u8[of c] by simp
  then have "(unat b mod 16) * 4 + unat c div 64 < 64" by simp
  ultimately show ?case using 4 sext1[of a b] sext2[of a b c] sext3[of b c]
    by (auto simp add: b64val_b64char split: option.splits)
qed

lemma toBase64_chars: "c \<in> set (toBase64 bs) \<Longrightarrow> c \<in> set base64Alphabet \<or> c = CHR ''=''"
  by (induction bs rule: toBase64.induct) (auto simp: b64char_in)

lemma filter_ws_toBase64: "filter (\<lambda>c. \<not> isAsciiWhitespace c) (toBase64 bs) = toBase64 bs"
proof -
  have "\<not> isAsciiWhitespace c" if "c \<in> set (toBase64 bs)" for c
    using toBase64_chars[OF that] ws_not_in by (auto simp: isAsciiWhitespace_def)
  then show ?thesis by (simp add: filter_id_conv)
qed

lemma atob_toBase64: "atob (toBase64 bs) = Some (map ucast bs)"
proof -
  obtain vs where vs: "sextets (encBody bs) = Some vs" "fromSextets vs = bs"
    using sextets_encBody[of bs] by (cases "sextets (encBody bs)") auto
  show ?thesis
    by (simp add: atob_def filter_ws_toBase64 stripPadding_toBase64 length_encBody_mod4 vs Let_def)
qed

section \<open>Chunk count, chunk sizes and the round trip\<close>

lemma nth_splitChunks:
  "i < numChunks (length e) \<Longrightarrow> splitChunks e ! i = take chunkSize (drop (i * chunkSize) e)"
  by (simp add: splitChunks_closed)

lemma numChunks_gt:
  assumes "i < numChunks n" shows "i * chunkSize < n"
proof (rule ccontr)
  assume "\<not> i * chunkSize < n"
  then have le: "n \<le> i * chunkSize" by simp
  have "n + chunkSize - 1 < (i + 1) * chunkSize" using le chunkSize_pos by simp
  then have "(n + chunkSize - 1) div chunkSize < i + 1"
    using chunkSize_pos by (simp add: div_less_iff_less_mult)
  then show False using assms by (simp add: numChunks_def)
qed

lemma numChunks_Suc_gt:
  assumes "Suc i < numChunks n" shows "Suc i * chunkSize < n"
  using numChunks_gt[OF assms] .

lemma numChunks_last:
  assumes "Suc i = numChunks n" shows "n \<le> Suc i * chunkSize"
  using numChunks_covers[of n] assms by simp

lemma numChunks_eq_0: "numChunks n = 0 \<longleftrightarrow> n = 0"
proof
  assume "numChunks n = 0"
  then show "n = 0" using numChunks_covers[of n] by simp
qed (simp add: numChunks_0)

lemma numChunks_one: "0 < n \<Longrightarrow> n \<le> chunkSize \<Longrightarrow> numChunks n = 1"
  unfolding numChunks_def by (intro div_nat_eqI) auto

lemma utf8Bytes_ne: "utf8Bytes cp \<noteq> []"
  by (simp add: utf8Bytes_def)

lemma bufferFrom_Nil_iff: "bufferFrom src = [] \<longleftrightarrow> src = []"
  by (induction src rule: bufferFrom.induct) (simp_all add: utf8Bytes_ne)

lemma encodeChunks_Nil_iff: "encodeChunks src = [] \<longleftrightarrow> src = []"
proof -
  have "encodeChunks src = [] \<longleftrightarrow> length (encodeChunks src) = 0" by simp
  also have "\<dots> \<longleftrightarrow> src = []"
    using toBase64_Nil_iff[of "bufferFrom src"]
    by (simp add: encodeChunks_def length_splitChunks numChunks_eq_0 bufferFrom_Nil_iff)
  finally show ?thesis .
qed

lemma bufferFrom_ascii:
  "\<forall>u \<in> set src. unat u < 0x80 \<Longrightarrow> bufferFrom src = map ucast src"
proof (induction src rule: bufferFrom.induct)
  case 1 show ?case by simp
next
  case (2 u)
  then show ?case by (simp add: isHighSurrogate_def isLowSurrogate_def utf8Bytes_def)
next
  case (3 u l rest)
  then show ?case by (simp add: isHighSurrogate_def isLowSurrogate_def utf8Bytes_def)
qed

lemma ucast_byte_roundtrip:
  fixes u :: "16 word"
  assumes "unat u < 0x100"
  shows "ucast (ucast u :: byte) = u"
proof -
  have "take_bit 8 (unat u) = unat u" using assms by (simp add: take_bit_nat_eq_self_iff)
  then have "unat (ucast (ucast u :: byte) :: 16 word) = unat u"
    by (simp add: unsigned_ucast_eq unsigned_take_bit_eq)
  then show ?thesis by (simp only: word_unat_eq_iff)
qed

lemma decode_is_utf8_bytes:
  "atob (concat (encodeChunks src)) = Some (map ucast (bufferFrom src))"
  by (simp add: encodeChunks_def concat_splitChunks atob_toBase64)

lemma roundtrip_ascii:
  assumes "\<forall>u \<in> set src. unat u < 0x80"
  shows "atob (concat (encodeChunks src)) = Some src"
proof -
  have "map ucast (map ucast src :: byte list) = src"
    using assms by (induction src) (simp_all add: ucast_byte_roundtrip)
  then show ?thesis using assms by (simp add: decode_is_utf8_bytes bufferFrom_ascii)
qed

lemma length_showNat: "0 < k \<Longrightarrow> n < 10 ^ k \<Longrightarrow> length (showNat n) \<le> k"
proof (induction k arbitrary: n)
  case 0 then show ?case by simp
next
  case (Suc k)
  show ?case
  proof (cases "n < 10")
    case True then show ?thesis by (subst showNat.simps) simp
  next
    case False
    then have k: "0 < k" using Suc.prems by (cases k) auto
    have "n div 10 < 10 ^ k" using Suc.prems by (simp add: less_mult_imp_div_less mult.commute)
    then have "length (showNat (n div 10)) \<le> k" using Suc.IH k by simp
    then show ?thesis using False by (subst showNat.simps) simp
  qed
qed

lemma byteLength_append: "byteLength (a @ b) = byteLength a + byteLength b"
  by (simp add: byteLength_def)

lemma byteLength_ascii: "\<forall>c \<in> set s. (of_char c :: nat) < 128 \<Longrightarrow> byteLength s = length s"
  by (induction s) (simp_all add: byteLength_def)

lemma digitChar_ascii: "d < 10 \<Longrightarrow> (of_char (digitChar d) :: nat) < 128"
  by (simp add: digitChar_def)

lemma showNat_ascii: "c \<in> set (showNat n) \<Longrightarrow> (of_char c :: nat) < 128"
proof (induction n arbitrary: c rule: showNat.induct)
  case (1 n)
  show ?case
  proof (cases "n < 10")
    case True
    then show ?thesis using 1(2) by (subst (asm) showNat.simps) (simp add: digitChar_ascii)
  next
    case False
    then show ?thesis using 1 digitChar_ascii[of "n mod 10"]
      by (subst (asm) (2) showNat.simps) auto
  qed
qed

lemma alphabet_ascii: "c \<in> set base64Alphabet \<Longrightarrow> (of_char c :: nat) < 128"
  by (auto simp: base64Alphabet_def)

lemma toBase64_ascii: "c \<in> set (toBase64 bs) \<Longrightarrow> (of_char c :: nat) < 128"
  using toBase64_chars[of c bs] alphabet_ascii by auto

lemma set_splitChunks: "i < length (splitChunks e) \<Longrightarrow> set (splitChunks e ! i) \<subseteq> set e"
proof -
  assume "i < length (splitChunks e)"
  then have "splitChunks e ! i = take chunkSize (drop (i * chunkSize) e)"
    by (simp add: length_splitChunks nth_splitChunks)
  then show ?thesis by (metis set_take_subset set_drop_subset subset_trans)
qed

lemma length_chunk_le: "i < length (splitChunks e) \<Longrightarrow> length (splitChunks e ! i) \<le> chunkSize"
  by (simp add: length_splitChunks nth_splitChunks)

lemma length_chunkContent:
  "length (chunkContent i n chunk) =
     49 + length (showNat (i + 1)) + length (showNat n) + length (showNat i) + length chunk"
  by (simp add: chunkContent_def)

lemma chunkContent_ascii:
  assumes "\<forall>c \<in> set chunk. (of_char c :: nat) < 128"
  shows "\<forall>c \<in> set (chunkContent i n chunk). (of_char c :: nat) < 128"
  using assms showNat_ascii by (auto simp: chunkContent_def)

lemma numChunks_le: "numChunks n \<le> n"
proof (cases "numChunks n")
  case 0 then show ?thesis by simp
next
  case (Suc m)
  then have "m < numChunks n" by simp
  then have "m * chunkSize < n" by (rule numChunks_gt)
  moreover have "m * 1 \<le> m * chunkSize" using chunkSize_pos by (intro mult_le_mono2) simp
  ultimately have "m < n" by linarith
  then show ?thesis using Suc by simp
qed

lemma digits_bound:
  assumes "n \<le> maxStringLength" shows "length (showNat n) \<le> 16"
proof -
  have "n < 10 ^ 16" using assms by (simp add: maxStringLength_def)
  then show ?thesis by (intro length_showNat) simp_all
qed

lemma chunk_file_size:
  assumes "length e \<le> maxStringLength" and "i < length (splitChunks e)"
  shows "length (chunkContent i (length (splitChunks e)) (splitChunks e ! i)) < hostFileLimit"
proof -
  have n: "length (splitChunks e) \<le> maxStringLength"
    using numChunks_le[of "length e"] assms(1) by (simp add: length_splitChunks)
  have "length (showNat (length (splitChunks e))) \<le> 16" using n by (rule digits_bound)
  moreover have "length (showNat i) \<le> 16" using n assms(2) by (intro digits_bound) simp
  moreover have "length (showNat (i + 1)) \<le> 16" using n assms(2) by (intro digits_bound) simp
  moreover have "length (splitChunks e ! i) \<le> 800000"
    using length_chunk_le[OF assms(2)] by (simp add: chunkSize_def)
  ultimately show ?thesis by (simp add: length_chunkContent hostFileLimit_def)
qed

text \<open>
  Claim C3, as the code has it.  For a bundle whose encoded text is a legal string, the
  number of chunks is \<open>ceil(encoded_length / 800000)\<close>; chunk \<open>i\<close> is the slice of the
  \<^emph>\<open>encoded\<close> text from \<open>i * 800000\<close> (the bound is applied after encoding, not to
  a pre-encoding slice); it has at most 800,000 characters and its module file stays
  strictly below the host's ceiling; an encoded text that fits in one segment gives
  exactly the one chunk of index 0.
\<close>

theorem chunk_sizing:
  assumes "length (toBase64 (bufferFrom src)) \<le> maxStringLength"
    and "i < length (encodeChunks src)"
  shows "length (encodeChunks src) = (length (toBase64 (bufferFrom src)) + 800000 - 1) div 800000
       \<and> encodeChunks src ! i = slice (toBase64 (bufferFrom src)) (i * 800000) (i * 800000 + 800000)
       \<and> length (encodeChunks src ! i) \<le> 800000
       \<and> byteLength (chunkContent i (length (encodeChunks src)) (encodeChunks src ! i)) < hostFileLimit
       \<and> (length (toBase64 (bufferFrom src)) \<le> 800000 \<longrightarrow>
            encodeChunks src = [toBase64 (bufferFrom src)])"
proof -
  let ?e = "toBase64 (bufferFrom src)"
  have i: "i < length (splitChunks ?e)" using assms(2) by (simp add: encodeChunks_def)
  have a: "length (encodeChunks src) = (length ?e + 800000 - 1) div 800000"
    by (simp add: encodeChunks_def length_splitChunks numChunks_def chunkSize_def)
  have b: "encodeChunks src ! i = slice ?e (i * 800000) (i * 800000 + 800000)"
    using i nth_splitChunks[of i ?e]
    by (simp add: encodeChunks_def length_splitChunks slice_def chunkSize_def)
  have c: "length (encodeChunks src ! i) \<le> 800000"
    using length_chunk_le[OF i] by (simp add: encodeChunks_def chunkSize_def)
  have "\<forall>c \<in> set (splitChunks ?e ! i). (of_char c :: nat) < 128"
    using set_splitChunks[OF i] toBase64_ascii by blast
  then have "byteLength (chunkContent i (length (splitChunks ?e)) (splitChunks ?e ! i))
      = length (chunkContent i (length (splitChunks ?e)) (splitChunks ?e ! i))"
    by (intro byteLength_ascii chunkContent_ascii)
  then have d: "byteLength (chunkContent i (length (encodeChunks src)) (encodeChunks src ! i)) < hostFileLimit"
    using chunk_file_size[OF assms(1) i] by (simp add: encodeChunks_def)
  have e: "encodeChunks src = [?e]" if "length ?e \<le> 800000"
  proof -
    have "i * chunkSize < length ?e"
      using numChunks_gt[of i "length ?e"] i by (simp only: length_splitChunks)
    then have pos: "0 < length ?e" by linarith
    then have "numChunks (length ?e) = 1" using that by (intro numChunks_one) (simp_all add: chunkSize_def)
    then show ?thesis using that by (simp add: encodeChunks_def splitChunks_closed chunkSize_def)
  qed
  show ?thesis using a b c d e by blast
qed

lemma toBase64_A: "toBase64 (bufferFrom [0x41]) = ''QQ==''"
  by (simp add: isHighSurrogate_def isLowSurrogate_def utf8Bytes_def b64char_def base64Alphabet_def)

theorem chunk_sizing_witness:
  "length (encodeChunks [0x41]) = 1
   \<and> length (encodeChunks [0x41] ! 0) \<le> 800000
   \<and> byteLength (chunkContent 0 (length (encodeChunks [0x41])) (encodeChunks [0x41] ! 0)) < hostFileLimit
   \<and> encodeChunks [0x41] = [toBase64 (bufferFrom [0x41])]"
proof -
  have h1: "length (toBase64 (bufferFrom [0x41])) \<le> maxStringLength"
    by (simp only: toBase64_A) (simp add: maxStringLength_def)
  have h3: "length (toBase64 (bufferFrom [0x41])) \<le> 800000"
    by (simp only: toBase64_A) simp
  have l: "length (encodeChunks [0x41]) = 1"
    by (simp only: encodeChunks_def toBase64_A length_splitChunks)
       (simp add: numChunks_def chunkSize_def)
  then have h2: "0 < length (encodeChunks [0x41])" by simp
  show ?thesis using chunk_sizing[OF h1 h2] h3 l by blast
qed

lemma length_bufferFrom_ascii: "length (bufferFrom (replicate n 0x41)) = n"
  by (simp add: bufferFrom_ascii)

text \<open>
  Against C3 as worded (``the size bound is applied to the pre-encoding slice size''):
  a bundle of 600,001 bytes is below 800,000 bytes before encoding, and is split in two.
\<close>

theorem pre_encoding_bound_counterexample:
  "length (bufferFrom (replicate 600001 0x41)) \<le> 800000
   \<and> length (encodeChunks (replicate 600001 0x41)) = 2"
  by (simp add: encodeChunks_def length_splitChunks numChunks_def chunkSize_def length_toBase64
      length_bufferFrom_ascii)

lemma encBody_chars: "c \<in> set (encBody bs) \<Longrightarrow> c \<in> set base64Alphabet"
  by (induction bs rule: encBody.induct) (auto simp: b64char_in)

lemma toBase64_shape: "\<exists>j\<le>2. toBase64 bs = encBody bs @ replicate j CHR ''=''"
proof (induction bs rule: toBase64.induct)
  case 1 show ?case by simp
next
  case (2 a)
  have "toBase64 [a] = encBody [a] @ replicate 2 CHR ''=''" by (simp add: numeral_2_eq_2)
  then show ?case by blast
next
  case (3 a b)
  have "toBase64 [a, b] = encBody [a, b] @ replicate 1 CHR ''=''" by simp
  then show ?case by (metis one_le_numeral)
next
  case (4 a b c rest)
  then obtain j where "j \<le> 2" "toBase64 rest = encBody rest @ replicate j CHR ''=''" by blast
  then have "toBase64 (a # b # c # rest) = encBody (a # b # c # rest) @ replicate j CHR ''=''" by simp
  then show ?case using \<open>j \<le> 2\<close> by blast
qed

lemma b64val_alphabet: "c \<in> set base64Alphabet \<Longrightarrow> b64val c \<noteq> None"
proof -
  assume "c \<in> set base64Alphabet"
  then obtain n where "n < length base64Alphabet" "c = base64Alphabet ! n"
    by (auto simp: in_set_conv_nth)
  then show ?thesis
    using indexOf_nth[OF distinct_alphabet, of n] by (simp add: b64val_def)
qed

lemma sextets_ok: "\<forall>c \<in> set s. b64val c \<noteq> None \<Longrightarrow> sextets s \<noteq> None"
  by (induction s) (auto split: option.splits)

lemma stripPadding_body:
  assumes "length (b @ replicate j CHR ''='') mod 4 = 0" "j \<le> 2" "CHR ''='' \<notin> set b"
  shows "stripPadding (b @ replicate j CHR ''='') = b"
proof -
  consider "j = 0" | "j = 1" | "j = 2" using assms(2) by linarith
  then show ?thesis
  proof cases
    case 1
    have "drop (length b - 2) b \<noteq> ''==''"
    proof
      assume h: "drop (length b - 2) b = ''==''"
      have "set (drop (length b - 2) b) \<subseteq> set b" by (rule set_drop_subset)
      then show False using h assms(3) by auto
    qed
    moreover have "drop (length b - 1) b \<noteq> ''=''"
    proof
      assume h: "drop (length b - 1) b = ''=''"
      have "set (drop (length b - 1) b) \<subseteq> set b" by (rule set_drop_subset)
      then show False using h assms(3) by auto
    qed
    ultimately show ?thesis using 1 by (simp add: stripPadding_def)
  next
    case 2
    have "drop (length b - 1) (b @ ''='') \<noteq> ''==''"
    proof
      assume h: "drop (length b - 1) (b @ ''='') = ''==''"
      then have "length b \<noteq> 0" by auto
      then have "drop (length b - 1) (b @ ''='') = [last b, CHR ''='']"
        by (cases b rule: rev_cases) auto
      then have "last b = CHR ''=''" using h by simp
      then show False using assms(3) \<open>length b \<noteq> 0\<close> by (metis last_in_set length_0_conv)
    qed
    then show ?thesis using 2 assms(1) by (simp add: stripPadding_def)
  next
    case 3
    then show ?thesis using assms(1) by (simp add: stripPadding_def numeral_2_eq_2)
  qed
qed

lemma chunk_decomposition:
  assumes enc: "enc = b @ replicate j CHR ''=''" "j \<le> 2" "length enc mod 4 = 0"
    and m: "m mod 4 = 0" "m < length enc" and cs: "cs mod 4 = 0"
  shows "\<exists>b' j'. take cs (drop m enc) = b' @ replicate j' CHR ''='' \<and> j' \<le> 2 \<and> set b' \<subseteq> set b"
proof -
  have "m + 4 \<le> length enc" using m enc(3) by presburger
  then have mb: "m \<le> length b" using enc(1,2) by simp
  then have r: "drop m enc = drop m b @ replicate j CHR ''=''" using enc(1) by simp
  have lr: "length (drop m enc) mod 4 = 0" using m enc(3) by (simp add: mod_eq_0_iff_dvd) 
  show ?thesis
  proof (cases "length (drop m enc) \<le> cs")
    case True
    then have "take cs (drop m enc) = drop m b @ replicate j CHR ''=''" using r by simp
    moreover have "set (drop m b) \<subseteq> set b" by (rule set_drop_subset)
    ultimately show ?thesis using enc(2) by blast
  next
    case False
    then have "cs + 4 \<le> length (drop m enc)" using cs lr by presburger
    then have "cs \<le> length (drop m b)" using r enc(2) by simp
    then have "take cs (drop m enc) = take cs (drop m b) @ replicate 0 CHR ''=''" using r by simp
    moreover have "set (take cs (drop m b)) \<subseteq> set b"
      by (meson set_take_subset set_drop_subset subset_trans)
    ultimately show ?thesis by blast
  qed
qed

lemma chunk_valid:
  assumes "i < length (splitChunks (toBase64 bs))"
  shows "validBase64 (splitChunks (toBase64 bs) ! i)"
proof -
  let ?e = "toBase64 bs"
  obtain j where j: "j \<le> 2" "?e = encBody bs @ replicate j CHR ''=''"
    using toBase64_shape[of bs] by blast
  have i: "i < numChunks (length ?e)" using assms by (simp add: length_splitChunks)
  have c: "splitChunks ?e ! i = take chunkSize (drop (i * chunkSize) ?e)"
    using i by (rule nth_splitChunks)
  have m: "(i * chunkSize) mod 4 = 0" by (simp add: chunkSize_def)
  have lt: "i * chunkSize < length ?e" using i by (rule numChunks_gt)
  have cs4: "chunkSize mod 4 = 0" by (simp add: chunkSize_def)
  obtain b' j' where d: "take chunkSize (drop (i * chunkSize) ?e) = b' @ replicate j' CHR ''=''"
      "j' \<le> 2" "set b' \<subseteq> set (encBody bs)"
    using chunk_decomposition[OF j(2) j(1) length_toBase64_mod4 m lt cs4] by blast
  have alpha: "\<forall>c \<in> set b'. c \<in> set base64Alphabet" using d(3) encBody_chars by blast
  then have nopad: "CHR ''='' \<notin> set b'" using pad_not_in by blast
  have len: "length (take chunkSize (drop (i * chunkSize) ?e)) mod 4 = 0"
  proof -
    have "length (drop (i * chunkSize) ?e) mod 4 = 0"
      using m length_toBase64_mod4[of bs] lt by (simp add: mod_eq_0_iff_dvd)
    then show ?thesis using cs4 by (simp add: min_def)
  qed
  have "stripPadding (b' @ replicate j' CHR ''='') = b'"
    using len d(1) d(2) nopad by (intro stripPadding_body) simp_all
  moreover have "sextets b' \<noteq> None" using alpha b64val_alphabet by (intro sextets_ok) blast
  ultimately show ?thesis using len c d(1) by (simp add: validBase64_def)
qed

text \<open>
  Claim C9.  Every chunk but the last has exactly 800,000 characters, the last has
  between 1 and 800,000; every slice starts on a multiple of four, and every chunk is
  itself a valid base64 string.
\<close>

theorem chunk_shape:
  assumes "i < length (encodeChunks src)"
  shows "(Suc i < length (encodeChunks src) \<longrightarrow> length (encodeChunks src ! i) = 800000)
       \<and> (Suc i = length (encodeChunks src) \<longrightarrow>
            1 \<le> length (encodeChunks src ! i) \<and> length (encodeChunks src ! i) \<le> 800000)
       \<and> (i * 800000) mod 4 = 0
       \<and> validBase64 (encodeChunks src ! i)"
proof -
  let ?e = "toBase64 (bufferFrom src)"
  have i: "i < numChunks (length ?e)" using assms by (simp add: encodeChunks_def length_splitChunks)
  have c: "encodeChunks src ! i = take chunkSize (drop (i * chunkSize) ?e)"
    using nth_splitChunks[OF i] by (simp add: encodeChunks_def)
  have lt: "i * chunkSize < length ?e" using i by (rule numChunks_gt)
  have a: "length (encodeChunks src ! i) = 800000" if "Suc i < length (encodeChunks src)"
  proof -
    have "Suc i < numChunks (length ?e)" using that by (simp add: encodeChunks_def length_splitChunks)
    then have "Suc i * chunkSize < length ?e" by (rule numChunks_gt)
    then show ?thesis using c by (simp add: chunkSize_def)
  qed
  have b: "1 \<le> length (encodeChunks src ! i) \<and> length (encodeChunks src ! i) \<le> 800000"
  proof -
    have "0 < length ?e - i * chunkSize" using lt by simp
    then show ?thesis using c by (simp add: chunkSize_def)
  qed
  have d: "validBase64 (encodeChunks src ! i)"
    using chunk_valid[of i "bufferFrom src"] assms by (simp add: encodeChunks_def)
  show ?thesis using a b d by simp
qed

lemma validBase64_QQ: "validBase64 ''QQ==''"
  by (simp add: validBase64_def stripPadding_def b64val_def base64Alphabet_def)

theorem chunk_shape_witness:
  "0 < length (encodeChunks [0x41]) \<and> Suc 0 = length (encodeChunks [0x41])
   \<and> 1 \<le> length (encodeChunks [0x41] ! 0) \<and> length (encodeChunks [0x41] ! 0) \<le> 800000
   \<and> validBase64 (encodeChunks [0x41] ! 0)"
proof -
  have l: "length (encodeChunks [0x41]) = 1"
    by (simp only: encodeChunks_def toBase64_A length_splitChunks)
       (simp add: numChunks_def chunkSize_def)
  then have h: "0 < length (encodeChunks [0x41])" by simp
  show ?thesis using chunk_shape[OF h] l by simp
qed

lemma encodeChunks_empty: "encodeChunks [] = []"
  by (simp add: encodeChunks_Nil_iff)

text \<open>
  Claim C4, as the code has it.  A zero-length bundle is not rejected: the chunk encoder
  returns normally with the empty chunk set and writes no file; the chunk set is empty
  only for the zero-length bundle.
\<close>

theorem empty_bundle_yields_empty_chunk_set:
  "emitChunkFiles dir name [] fs = Inr ([], fs)
   \<and> (encodeChunks src = [] \<longleftrightarrow> src = [])"
  by (simp add: emitChunkFiles_def encodeChunks_empty encodeChunks_Nil_iff)

text \<open>Against C4 as worded: the empty bundle, an empty output tree, no error.\<close>

theorem empty_bundle_rejected_counterexample:
  "emitChunkFiles [''dist''] ''appInterop'' [] (Dir []) = Inr ([], Dir [])"
  by (simp add: emitChunkFiles_def encodeChunks_empty)

text \<open>
  Claim C1 at the one-character bundle \<open>U+00E9\<close>: \<open>Buffer.from\<close> encodes the text as
  UTF-8, \<open>atob\<close> returns one code unit per byte, and the decoded text is two code units
  long.  (\<open>decode_is_utf8_bytes\<close> gives the decoded text for every bundle,
  \<open>roundtrip_ascii\<close> the round trip for ASCII text.)
\<close>

theorem decoded_text_differs_from_source:
  "atob (concat (encodeChunks [0xE9])) = Some [0xC3, 0xA9]
   \<and> atob (concat (encodeChunks [0xE9])) \<noteq> Some [0xE9]"
  by (simp add: decode_is_utf8_bytes isHighSurrogate_def isLowSurrogate_def utf8Bytes_def)


section \<open>The runtime bridge: one mount, contained failures, the process object\<close>

lemmas action_defs = consoleLog_def consoleError_def domCall_def acquireLibraries_def
  defineProcess_def decodeAndExecute_def requireFactory_def queryContainer_def createRoot_def
  setHasRendered_def emit_def defineProcessEnv_def

lemma tryBlock_success:
  assumes "tryBlock h \<lparr>inst = c, gwin = w, trace = []\<rparr> = (None, s)" "hasRendered (inst s)" "\<not> hasRendered c"
  shows "trace s = mountTrace"
  using assms
  unfolding tryBlock_def mountBody_def mountTrace_def
  by (auto simp add: action_defs showBool_def split: option.splits sum.splits if_splits prod.splits)

lemma tryBlock_throw:
  assumes "tryBlock h \<lparr>inst = c, gwin = w, trace = []\<rparr> = (Some e, s)" "\<not> hasRendered c"
  shows "\<not> hasRendered (inst s)"
  using assms
  unfolding tryBlock_def mountBody_def
  by (auto simp add: action_defs showBool_def split: option.splits sum.splits if_splits prod.splits)

lemma tryBlock_no_mount:
  assumes "tryBlock h \<lparr>inst = c, gwin = w, trace = []\<rparr> = (None, s)" "\<not> hasRendered (inst s)"
  shows "(React h = None \<or> ReactDOM h = None) \<and> gwin s = w
       \<and> trace s = [ConsoleLog ''LWC renderedCallback started'',
                     ConsoleLog (''React loaded: '' @ showBool (React h \<noteq> None)),
                     ConsoleLog (''ReactDOM loaded: '' @ showBool (ReactDOM h \<noteq> None)),
                     ConsoleError ''React or ReactDOM not available'',
                     ConsoleError (''React: '' @ showBool (React h \<noteq> None)),
                     ConsoleError (''ReactDOM: '' @ showBool (ReactDOM h \<noteq> None))]"
  using assms
  unfolding tryBlock_def mountBody_def
  by (auto simp add: action_defs split: option.splits sum.splits if_splits prod.splits)

lemma atob_QQ: "atob ''QQ=='' = Some [0x41]"
  by (simp add: atob_def isAsciiWhitespace_def stripPadding_def b64val_def base64Alphabet_def)

lemma already_rendered_skips: "hasRendered c \<Longrightarrow> renderedCallback h (c, w) = (Fulfilled, (c, w), [alreadyRendered])"
  by (simp add: renderedCallback_def)

lemma invocations_mounted:
  "hasRendered (fst cw) \<Longrightarrow> invocations hs cw = (cw, concat (replicate (length hs) [alreadyRendered]))"
  by (induction hs) (simp_all add: renderedCallback_def)

lemma renderedCallback_outcomes:
  assumes "\<not> hasRendered c" "renderedCallback h (c, w) = (r, (c1, w1), evs)"
  shows "(hasRendered c1 \<and> r = Fulfilled \<and> evs = mountTrace)
       \<or> (\<not> hasRendered c1 \<and> (\<exists>m. ConsoleError m \<in> set evs)
           \<and> (r = Fulfilled \<or>
               r = Rejected (Thrown ''Cannot read properties of undefined (reading message)'' ''TypeError'')))"
proof (cases "tryBlock h \<lparr>inst = c, gwin = w, trace = []\<rparr>")
  case (Pair t s)
  show ?thesis
  proof (cases t)
    case None
    then have eq: "r = Fulfilled" "c1 = inst s" "w1 = gwin s" "evs = trace s"
      using assms Pair by (simp_all add: renderedCallback_def)
    show ?thesis
    proof (cases "hasRendered (inst s)")
      case True
      then show ?thesis using tryBlock_success[of h c w s] Pair None assms(1) eq by simp
    next
      case False
      have "ConsoleError ''React or ReactDOM not available'' \<in> set (trace s)"
        using tryBlock_no_mount[of h c w s] Pair None False by simp
      then have "\<exists>m. ConsoleError m \<in> set evs" using eq(4) by blast
      then show ?thesis using False eq by simp
    qed
  next
    case (Some e)
    then have nr: "\<not> hasRendered (inst s)" using tryBlock_throw[of h c w e s] Pair assms(1) by simp
    show ?thesis using assms Pair Some nr
      by (cases e) (auto simp add: renderedCallback_def catchBlock_def emit_def)
  qed
qed

lemma count_mountTrace:
  "count_list mountTrace AtobCall = 1" "count_list mountTrace ScriptCall = 1"
  "count_list mountTrace (Dom AttachShadow) = 1" "count_list mountTrace (Dom RootRender) = 1"
  "count_list mountTrace alreadyRendered = 0"
  by (simp_all add: mountTrace_def alreadyRendered_def)

lemma count_list_skips:
  "ev \<noteq> alreadyRendered \<Longrightarrow> count_list (concat (replicate n [alreadyRendered])) ev = 0"
  by (induction n) simp_all

text \<open>
  Claim C2.  From any state whose guard is unset, if an invocation mounts (sets the
  guard), then that invocation followed by any number of later ones, whatever the host
  does, is this one mount followed by no-ops: each later call returns the state as it
  was and logs the skip line only, so the whole run holds exactly one decode, one
  execution, one shadow attach and one render.
\<close>

theorem mount_once:
  assumes "\<not> hasRendered c" "renderedCallback h (c, w) = (r, (c1, w1), evs)" "hasRendered c1"
  shows "invocations (h # hs) (c, w) = ((c1, w1), evs @ concat (replicate (length hs) [alreadyRendered]))
       \<and> count_list (snd (invocations (h # hs) (c, w))) AtobCall = 1
       \<and> count_list (snd (invocations (h # hs) (c, w))) ScriptCall = 1
       \<and> count_list (snd (invocations (h # hs) (c, w))) (Dom AttachShadow) = 1
       \<and> count_list (snd (invocations (h # hs) (c, w))) (Dom RootRender) = 1
       \<and> renderedCallback h' (c1, w1) = (Fulfilled, (c1, w1), [alreadyRendered])"
proof -
  have evs: "evs = mountTrace" using renderedCallback_outcomes[OF assms(1,2)] assms(3) by blast
  have inv: "invocations (h # hs) (c, w) = ((c1, w1), evs @ concat (replicate (length hs) [alreadyRendered]))"
    using assms(2,3) invocations_mounted[of "(c1, w1)" hs] by simp
  show ?thesis
    unfolding inv evs
    by (simp add: count_mountTrace count_list_skips alreadyRendered_def already_rendered_skips[OF assms(3), unfolded alreadyRendered_def])
qed

lemmas host_defs = okHost_def throwingHost_def emptyWindow_def hostWindow_def newComponent_def

lemma okHost_mounts:
  "renderedCallback okHost (newComponent, emptyWindow) =
     (Fulfilled,
      (\<lparr>hasRendered = True, reactInstance = Some 1, reactDOMInstance = Some 2, reactRoot = Some 3\<rparr>,
       \<lparr>process = Some defaultProcess, ReactAppComponent = Some 7\<rparr>),
      mountTrace)"
  by (simp add: renderedCallback_def tryBlock_def mountBody_def action_defs showBool_def host_defs
      atob_QQ mountTrace_def)

theorem mount_once_witness:
  "invocations [okHost, throwingHost, okHost] (newComponent, emptyWindow) =
     ((\<lparr>hasRendered = True, reactInstance = Some 1, reactDOMInstance = Some 2, reactRoot = Some 3\<rparr>,
       \<lparr>process = Some defaultProcess, ReactAppComponent = Some 7\<rparr>),
      mountTrace @ [alreadyRendered, alreadyRendered])
   \<and> count_list (snd (invocations [okHost, throwingHost, okHost] (newComponent, emptyWindow))) AtobCall = 1"
proof -
  have h1: "\<not> hasRendered newComponent" by (simp add: newComponent_def)
  have h3: "hasRendered \<lparr>hasRendered = True, reactInstance = Some 1, reactDOMInstance = Some 2,
              reactRoot = Some 3\<rparr>" by simp
  note th = mount_once[OF h1 okHost_mounts h3, of "[throwingHost, okHost]" okHost]
  have n: "concat (replicate (length [throwingHost, okHost]) [alreadyRendered])
             = [alreadyRendered, alreadyRendered]"
    by (simp add: numeral_2_eq_2)
  have a: "invocations [okHost, throwingHost, okHost] (newComponent, emptyWindow) =
     ((\<lparr>hasRendered = True, reactInstance = Some 1, reactDOMInstance = Some 2, reactRoot = Some 3\<rparr>,
       \<lparr>process = Some defaultProcess, ReactAppComponent = Some 7\<rparr>),
      mountTrace @ concat (replicate (length [throwingHost, okHost]) [alreadyRendered]))"
    using th by blast
  have b: "count_list (snd (invocations [okHost, throwingHost, okHost] (newComponent, emptyWindow))) AtobCall = 1"
    using th by blast
  show ?thesis using a[unfolded n] b by blast
qed

text \<open>
  Claim C5 at a bundle that throws \<open>undefined\<close>: the value is caught and logged and the
  guard stays unset, but the handler's \<open>error.message\<close> raises inside the handler and
  the hook's promise is rejected.  (\<open>renderedCallback_outcomes\<close> gives every
  invocation: it mounts, or it leaves the guard unset and logs an error, and it
  fulfils unless the thrown value was \<open>null\<close> or \<open>undefined\<close>.)
\<close>

theorem nullish_throw_rejects_hook:
  "renderedCallback throwingHost (newComponent, emptyWindow) =
     (Rejected (Thrown ''Cannot read properties of undefined (reading message)'' ''TypeError''),
      (\<lparr>hasRendered = False, reactInstance = Some 1, reactDOMInstance = Some 2, reactRoot = None\<rparr>,
       \<lparr>process = Some defaultProcess, ReactAppComponent = None\<rparr>),
      [ConsoleLog ''LWC renderedCallback started'',
       ConsoleLog ''React loaded: true'', ConsoleLog ''ReactDOM loaded: true'',
       ConsoleLog ''Decoding and executing React bundle...'',
       ConsoleLog ''process.env defined: true'', AtobCall, NewFunctionCall, ScriptCall,
       ConsoleError ''Error rendering React app: undefined''])"
  by (simp add: renderedCallback_def tryBlock_def mountBody_def action_defs showBool_def host_defs
      atob_QQ catchBlock_def)

lemmas action_defs' = consoleLog_def consoleError_def domCall_def acquireLibraries_def
  defineProcess_def requireFactory_def queryContainer_def createRoot_def
  setHasRendered_def emit_def defineProcessEnv_def

lemma decodeAndExecute_process:
  assumes "decodeAndExecute h s = (t, s')"
    and "\<forall>code f a b w'. newFunction h code = Inr f \<longrightarrow> process (snd (f a b w')) = process w'"
  shows "process (gwin s') = process (gwin s)"
proof (cases "atob (concat (chunkConstants h))")
  case None
  then show ?thesis using assms(1) by (auto simp: decodeAndExecute_def emit_def)
next
  case (Some code)
  show ?thesis
  proof (cases "newFunction h code")
    case (Inl e)
    then show ?thesis using assms(1) Some by (auto simp: decodeAndExecute_def emit_def)
  next
    case (Inr f)
    then have "process (snd (f (reactInstance (inst s)) (reactDOMInstance (inst s)) (gwin s)))
                 = process (gwin s)"
      using assms(2) by blast
    then show ?thesis using assms(1) Some Inr
      by (auto simp: decodeAndExecute_def emit_def split: prod.splits)
  qed
qed

lemma tryBlock_process:
  assumes "tryBlock h \<lparr>inst = c, gwin = w, trace = []\<rparr> = (t, s)"
    and "\<forall>code f a b w'. newFunction h code = Inr f \<longrightarrow> process (snd (f a b w')) = process w'"
  shows "(process w \<noteq> None \<longrightarrow> process (gwin s) = process w)
       \<and> (process (gwin s) \<noteq> process w \<longrightarrow>
            process w = None \<and> process (gwin s) = Some defaultProcess
            \<and> React h \<noteq> None \<and> ReactDOM h \<noteq> None)"
  using assms(1) decodeAndExecute_process[OF _ assms(2)]
  unfolding tryBlock_def mountBody_def
  by (fastforce simp add: action_defs' split: option.splits sum.splits if_splits prod.splits)

lemma tryBlock_installs:
  assumes "tryBlock h \<lparr>inst = c, gwin = w, trace = []\<rparr> = (t, s)"
    and "\<forall>code f a b w'. newFunction h code = Inr f \<longrightarrow> process (snd (f a b w')) = process w'"
    and "process w = None" "React h \<noteq> None" "ReactDOM h \<noteq> None"
  shows "process (gwin s) = Some defaultProcess"
proof -
  define s1 where "s1 = \<lparr>inst = c\<lparr>reactInstance := React h, reactDOMInstance := ReactDOM h\<rparr>,
                         gwin = defineProcessEnv w,
                         trace = [ConsoleLog ''LWC renderedCallback started'',
                                  ConsoleLog (''React loaded: '' @ showBool (React h \<noteq> None)),
                                  ConsoleLog (''ReactDOM loaded: '' @ showBool (ReactDOM h \<noteq> None)),
                                  ConsoleLog ''Decoding and executing React bundle...'',
                                  ConsoleLog (''process.env defined: '' @
                                     showBool (process (defineProcessEnv w) \<noteq> None))]\<rparr>"
  obtain t2 s2 where d: "decodeAndExecute h s1 = (t2, s2)" by (cases "decodeAndExecute h s1")
  have p2: "process (gwin s2) = Some defaultProcess"
    using decodeAndExecute_process[OF d assms(2)] assms(3) by (simp add: s1_def defineProcessEnv_def)
  show ?thesis
    using assms(1,4,5) d p2
    unfolding tryBlock_def mountBody_def
    by (auto simp add: action_defs' s1_def split: option.splits if_splits prod.splits)
qed

text \<open>
  Claim C10.  With a bundle that leaves \<open>window.process\<close> as it finds it, an
  invocation leaves an existing process object exactly as it was; the slot changes only
  when it was empty, on a first render with both libraries present, and then to the
  default object, which such a render does install.
\<close>

theorem process_env_kept:
  assumes "renderedCallback h (c, w) = (r, (c1, w1), evs)"
    and "\<forall>code f a b w'. newFunction h code = Inr f \<longrightarrow> process (snd (f a b w')) = process w'"
  shows "(process w \<noteq> None \<longrightarrow> process w1 = process w \<and> defineProcessEnv w = w)
       \<and> (process w1 \<noteq> process w \<longrightarrow>
            process w = None \<and> process w1 = Some defaultProcess \<and> \<not> hasRendered c
            \<and> React h \<noteq> None \<and> ReactDOM h \<noteq> None)
       \<and> (process w = None \<and> \<not> hasRendered c \<and> React h \<noteq> None \<and> ReactDOM h \<noteq> None \<longrightarrow>
            process w1 = Some defaultProcess)"
proof (cases "hasRendered c")
  case True
  then show ?thesis using assms(1) by (auto simp: renderedCallback_def defineProcessEnv_def)
next
  case False
  obtain t s where ts: "tryBlock h \<lparr>inst = c, gwin = w, trace = []\<rparr> = (t, s)"
    by (cases "tryBlock h \<lparr>inst = c, gwin = w, trace = []\<rparr>")
  have "w1 = gwin s"
    using assms(1) False ts
    by (auto simp: renderedCallback_def catchBlock_def emit_def split: option.splits thrown.splits)
  then have w1: "process w1 = process (gwin s)" by simp
  note kept = tryBlock_process[OF ts assms(2)]
  have c1: "process w \<noteq> None \<longrightarrow> process w1 = process w \<and> defineProcessEnv w = w"
    using kept w1 by (simp add: defineProcessEnv_def)
  have c2: "process w1 \<noteq> process w \<longrightarrow>
              process w = None \<and> process w1 = Some defaultProcess \<and> \<not> hasRendered c
              \<and> React h \<noteq> None \<and> ReactDOM h \<noteq> None"
    using kept w1 False by simp
  have c3: "process w = None \<and> \<not> hasRendered c \<and> React h \<noteq> None \<and> ReactDOM h \<noteq> None \<longrightarrow>
              process w1 = Some defaultProcess"
    using tryBlock_installs[OF ts assms(2)] w1 by simp
  show ?thesis using c1 c2 c3 by blast
qed

theorem process_env_kept_witness:
  "process (snd (fst (snd (renderedCallback okHost (newComponent, hostWindow)))))
     = Some [(''NODE_ENV'', Some ''development'')]
   \<and> defineProcessEnv hostWindow = hostWindow"
proof -
  obtain r c1 w1 evs where rc: "renderedCallback okHost (newComponent, hostWindow) = (r, (c1, w1), evs)"
    by (metis prod.exhaust)
  have h: "\<forall>code f a b w'. newFunction okHost code = Inr f \<longrightarrow> process (snd (f a b w')) = process w'"
    by (auto simp: okHost_def)
  have p: "process hostWindow \<noteq> None" by (simp add: hostWindow_def)
  show ?thesis using process_env_kept[OF rc h] p rc by (simp add: hostWindow_def)
qed


section \<open>The build pipeline: style fallback and temporary directories\<close>

lemma collectCSS_order: "collectCSS dir files fileList = fileList @ cssFilesIn dir files"
  by (induction dir files fileList rule: collectCSS.induct) simp_all

lemma readCSSFiles_acc:
  "readCSSFiles fs ps acc = (case readCSSFiles fs ps '''' of Inl e \<Rightarrow> Inl e | Inr t \<Rightarrow> Inr (acc @ t))"
proof (induction ps arbitrary: acc)
  case Nil show ?case by simp
next
  case (Cons p ps)
  show ?case
  proof (cases "existsSync fs p")
    case False
    then show ?thesis using Cons.IH[of acc] by simp
  next
    case True
    show ?thesis
    proof (cases "readFileSync fs p")
      case (Inl e) then show ?thesis using True by simp
    next
      case (Inr t)
      then show ?thesis using True Cons.IH[of "acc @ t @ ''\<newline>''"] Cons.IH[of "t @ ''\<newline>''"]
        by (simp split: sum.splits)
    qed
  qed
qed

lemma readCSSFiles_closed:
  assumes "\<forall>p \<in> set ps. \<not> isDirectory fs p"
  shows "readCSSFiles fs ps '''' =
           Inr (concat (map (\<lambda>p. fileText fs p @ ''\<newline>'') (filter (existsSync fs) ps)))"
  using assms
proof (induction ps)
  case Nil show ?case by simp
next
  case (Cons p ps)
  then have IH: "readCSSFiles fs ps '''' =
           Inr (concat (map (\<lambda>p. fileText fs p @ ''\<newline>'') (filter (existsSync fs) ps)))" by simp
  show ?case
  proof (cases "existsSync fs p")
    case False then show ?thesis using IH by simp
  next
    case True
    then obtain c where "lookup fs p = Some (File c)"
      using Cons.prems by (auto simp: existsSync_def isDirectory_def split: option.splits fsnode.splits)
    then have "readFileSync fs p = Inr c" "fileText fs p = c"
      by (simp_all add: readFileSync_def fileText_def)
    then show ?thesis using True IH readCSSFiles_acc[of fs ps "c @ ''\<newline>''"] by simp
  qed
qed

lemma findCSSFiles_order:
  "lookup fs dir = Some (Dir files) \<Longrightarrow> findCSSFiles fs dir = Inr (cssFilesIn dir files)"
  by (simp add: findCSSFiles_def collectCSS_order)

text \<open>
  Claim C6, as the code has it.  When webpack left no \<open>extracted-styles.css\<close>, the
  resolved text is the concatenation, in the order of the recursive walk, of the text
  of every discovered stylesheet that still exists when it is read, each one
  \<^emph>\<open>followed\<close> by a newline (so the text ends in a newline, a vanished file adds
  nothing); this for discovered paths that have not meanwhile become directories.
\<close>

theorem style_fallback:
  assumes "\<not> existsSync (bfs s) (tempDir @ [''extracted-styles.css''])"
      and "lookup (bfs s) (sibling (dirname env) ''src'') = Some (Dir files)"
      and "\<forall>p \<in> set (cssFilesIn (sibling (dirname env) ''src'') files).
             \<not> isDirectory (interference env (bfs s)) p"
  shows "fst (stylesCallback env tempDir StatsOk s) =
           Resolve (concat (map (\<lambda>p. fileText (interference env (bfs s)) p @ ''\<newline>'')
                      (filter (existsSync (interference env (bfs s)))
                         (cssFilesIn (sibling (dirname env) ''src'') files))))"
  using assms(1) findCSSFiles_order[OF assms(2)] readCSSFiles_closed[OF assms(3)]
  by (simp add: stylesCallback_def readStyles_def Let_def logged_def)

lemma example_walk: "findCSSFiles projectTree [''src''] = Inr [[''src'', ''a.css'']]"
  by (simp add: findCSSFiles_def projectTree_def endsWith_def)

lemmas build_defs = compileStyles_def compileReactComponents_def stylesCallback_def
  reactCallback_def readStyles_def findCSSFiles_def ensureDir_def writeFile_def requirePlugin_def
  existsSync_def mkdirSync_def writeFileSync_def readFileSync_def rmSync_def logged_def
  sibling_def endsWith_def Let_def

lemmas example_defs = exampleEnv_def projectTree_def noOutputWebpack_def failingWebpack_def

theorem style_fallback_witness:
  "fst (stylesCallback exampleEnv [''temp-css-build''] StatsOk \<lparr>bfs = projectTree, blog = []\<rparr>)
     = Resolve ''a\<newline>''"
proof -
  have h1: "\<not> existsSync (bfs \<lparr>bfs = projectTree, blog = []\<rparr>)
              ([''temp-css-build''] @ [''extracted-styles.css''])"
    by (simp add: existsSync_def projectTree_def)
  have h2: "lookup (bfs \<lparr>bfs = projectTree, blog = []\<rparr>) (sibling (dirname exampleEnv) ''src'')
              = Some (Dir [(''a.css'', File ''a'')])"
    by (simp add: sibling_def exampleEnv_def projectTree_def)
  have h3: "\<forall>p \<in> set (cssFilesIn (sibling (dirname exampleEnv) ''src'') [(''a.css'', File ''a'')]).
              \<not> isDirectory (interference exampleEnv (bfs \<lparr>bfs = projectTree, blog = []\<rparr>)) p"
    by (simp add: isDirectory_def exampleEnv_def projectTree_def sibling_def endsWith_def)
  show ?thesis
    using style_fallback[OF h1 h2 h3]
    by (simp add: exampleEnv_def projectTree_def existsSync_def fileText_def sibling_def
        endsWith_def)
qed

text \<open>
  Against C6 as worded: one stylesheet holding \<open>a\<close>; the stage resolves \<open>a\<close> and a
  newline, ``separated by a newline'' gives \<open>a\<close>.
\<close>

theorem newline_separated_counterexample:
  "fst (compileStyles exampleEnv \<lparr>bfs = projectTree, blog = []\<rparr>) = Resolve ''a\<newline>''
   \<and> fst (compileStyles exampleEnv \<lparr>bfs = projectTree, blog = []\<rparr>)
       \<noteq> Resolve (separatedByNewline [fileText projectTree [''src'', ''a.css'']])"
  by (simp add: build_defs example_defs separatedByNewline_def fileText_def)

text \<open>
  Claim C7 at a compiler error: both stages reject, and both leave their temporary
  directory behind.  (On the resolving path the directory is removed:
  \<open>temp_dir_removed_on_success\<close>, \<open>styles_temp_dir_removed_on_success\<close>.)
\<close>

theorem temp_dir_left_on_compiler_error:
  "fst (compileReactComponents (exampleEnv\<lparr>webpack := failingWebpack\<rparr>)
          \<lparr>bfs = projectTree, blog = []\<rparr>) = Reject (WebpackFailure ''Module parse failed'')
   \<and> existsSync (bfs (snd (compileReactComponents (exampleEnv\<lparr>webpack := failingWebpack\<rparr>)
          \<lparr>bfs = projectTree, blog = []\<rparr>))) [''temp-build'']
   \<and> fst (compileStyles (exampleEnv\<lparr>webpack := failingWebpack\<rparr>)
          \<lparr>bfs = projectTree, blog = []\<rparr>) = Reject (WebpackFailure ''Module parse failed'')
   \<and> existsSync (bfs (snd (compileStyles (exampleEnv\<lparr>webpack := failingWebpack\<rparr>)
          \<lparr>bfs = projectTree, blog = []\<rparr>))) [''temp-css-build'']"
  by (simp add: build_defs example_defs)

lemma lookup_removeAt: "p \<noteq> [] \<Longrightarrow> lookup (removeAt p fs) p = None"
proof (induction p fs rule: removeAt.induct)
  case (1 n) then show ?case by simp
next
  case (2 x p c) then show ?case by simp
next
  case (3 x p es)
  show ?case
  proof (cases "p = []")
    case True then show ?thesis by (simp add: AList.delete_conv')
  next
    case False
    then show ?thesis using 3 by (simp add: AList.update_conv' split: option.splits)
  qed
qed

lemma temp_dir_removed_on_success:
  assumes "tempDir \<noteq> []" "reactCallback tempDir StatsOk s = (Resolve js, s')"
  shows "\<not> existsSync (bfs s') tempDir"
  using assms
  by (auto simp: reactCallback_def existsSync_def rmSync_def logged_def lookup_removeAt
      split: sum.splits)

lemma styles_temp_dir_removed_on_success:
  assumes "tempDir \<noteq> []" "stylesCallback env tempDir StatsOk s = (Resolve css, s')"
  shows "\<not> existsSync (bfs s') tempDir"
  using assms
  by (auto simp: stylesCallback_def existsSync_def rmSync_def logged_def lookup_removeAt
      split: sum.splits prod.splits)

section \<open>The file system: what \<open>mkdir\<close> and a write change\<close>

lemma isDirectory_Nil: "isDirectory fs [] \<longleftrightarrow> (\<exists>es. fs = Dir es)"
  by (cases fs) (simp_all add: isDirectory_def)

lemma isDirectory_Cons:
  "isDirectory (Dir es) (x # p) \<longleftrightarrow> (\<exists>ch. map_of es x = Some ch \<and> isDirectory ch p)"
  by (simp add: isDirectory_def split: option.splits)

lemma isDirectory_File: "\<not> isDirectory (File c) (x # p)"
  by (simp add: isDirectory_def)

lemma mkdirp_lookup_other:
  "mkdirp p fs = Some fs' \<Longrightarrow> \<not> prefix q p \<Longrightarrow> lookup fs' q = lookup fs q"
proof (induction p fs arbitrary: fs' q rule: mkdirp.induct)
  case (1 es) then show ?case by simp
next
  case (2 c) then show ?case by simp
next
  case (3 x p c) then show ?case by simp
next
  case (4 x p es)
  let ?child = "case map_of es x of None \<Rightarrow> Dir [] | Some ch \<Rightarrow> ch"
  from 4(2) obtain ch' where ch': "mkdirp p ?child = Some ch'" "fs' = Dir (AList.update x ch' es)"
    by (auto split: option.splits)
  from 4(3) obtain y q' where q: "q = y # q'" by (cases q) auto
  show ?case
  proof (cases "y = x")
    case False
    then show ?thesis using q ch'(2) by (simp add: AList.update_conv')
  next
    case True
    then have np: "\<not> prefix q' p" using 4(3) q by simp
    then have "lookup ch' q' = lookup ?child q'" using 4(1)[OF ch'(1)] by simp
    moreover have "q' \<noteq> []" using np by auto
    then have "lookup (Dir []) q' = None" by (cases q') simp_all
    ultimately show ?thesis using q True ch'(2)
      by (simp add: AList.update_conv' split: option.splits)
  qed
qed

lemma mkdirp_isDirectory:
  "mkdirp p fs = Some fs' \<Longrightarrow> prefix q p \<Longrightarrow> isDirectory fs' q"
proof (induction p fs arbitrary: fs' q rule: mkdirp.induct)
  case (1 es) then show ?case by (auto simp add: isDirectory_Nil)
next
  case (2 c) then show ?case by simp
next
  case (3 x p c) then show ?case by simp
next
  case (4 x p es)
  let ?child = "case map_of es x of None \<Rightarrow> Dir [] | Some ch \<Rightarrow> ch"
  from 4(2) obtain ch' where ch': "mkdirp p ?child = Some ch'" "fs' = Dir (AList.update x ch' es)"
    by (auto split: option.splits)
  show ?case
  proof (cases q)
    case Nil then show ?thesis using ch'(2) by (simp add: isDirectory_Nil)
  next
    case (Cons y q')
    then have "y = x" "prefix q' p" using 4(3) by simp_all
    then have "isDirectory ch' q'" using 4(1)[OF ch'(1)] by simp
    then show ?thesis using Cons \<open>y = x\<close> ch'(2)
      by (simp add: isDirectory_Cons AList.update_conv')
  qed
qed

lemma mkdirp_succeeds:
  "(\<forall>q. prefix q p \<longrightarrow> lookup fs q = None \<or> isDirectory fs q) \<Longrightarrow> mkdirp p fs \<noteq> None"
proof (induction p arbitrary: fs)
  case Nil
  then have "isDirectory fs []" by (auto simp: isDirectory_def)
  then show ?case by (auto simp: isDirectory_Nil)
next
  case (Cons x p)
  have "isDirectory fs []" using Cons.prems[rule_format, of "[]"] by simp
  then obtain es where fs: "fs = Dir es" by (auto simp: isDirectory_Nil)
  let ?child = "case map_of es x of None \<Rightarrow> Dir [] | Some ch \<Rightarrow> ch"
  have "\<forall>q. prefix q p \<longrightarrow> lookup ?child q = None \<or> isDirectory ?child q"
  proof (intro allI impI)
    fix q assume pq: "prefix q p"
    show "lookup ?child q = None \<or> isDirectory ?child q"
    proof (cases "map_of es x")
      case None
      then show ?thesis by (cases q) (simp_all add: isDirectory_def)
    next
      case (Some ch)
      have "lookup fs (x # q) = None \<or> isDirectory fs (x # q)"
        using Cons.prems pq by simp
      then show ?thesis using Some fs by (simp add: isDirectory_def)
    qed
  qed
  then have "mkdirp p ?child \<noteq> None" by (rule Cons.IH)
  then show ?case using fs by (auto split: option.splits)
qed

lemma writeAt_lookup_same: "writeAt p c fs = Some fs' \<Longrightarrow> lookup fs' p = Some (File c)"
proof (induction p c fs arbitrary: fs' rule: writeAt.induct)
  case (4 x p content es)
  show ?case
  proof (cases "map_of es x")
    case None
    then show ?thesis using 4(2) by (auto simp: AList.update_conv' split: if_splits)
  next
    case (Some ch)
    then obtain ch' where "writeAt p content ch = Some ch'" "fs' = Dir (AList.update x ch' es)"
      using 4(2) by (auto split: option.splits)
    then show ?thesis using 4(1)[OF Some] by (simp add: AList.update_conv')
  qed
qed simp_all

lemma writeAt_lookup_other:
  "writeAt p c fs = Some fs' \<Longrightarrow> \<not> prefix q p \<Longrightarrow> lookup fs' q = lookup fs q"
proof (induction p c fs arbitrary: fs' q rule: writeAt.induct)
  case (1 content c)
  then show ?case by (cases q) auto
next
  case (2 content es) then show ?case by simp
next
  case (3 x p content c) then show ?case by simp
next
  case (4 x p content es)
  from 4(3) obtain y q' where q: "q = y # q'" by (cases q) auto
  show ?case
  proof (cases "y = x")
    case False
    then show ?thesis using q 4(2)
      by (auto simp: AList.update_conv' split: option.splits if_splits)
  next
    case True
    then have np: "\<not> prefix q' p" using 4(3) q by simp
    then have q'ne: "q' \<noteq> []" by auto
    show ?thesis
    proof (cases "map_of es x")
      case None
      then have "fs' = Dir (AList.update x (File content) es)" using 4(2) by (auto split: if_splits)
      then show ?thesis using q True None q'ne by (cases q') (simp_all add: AList.update_conv')
    next
      case (Some ch)
      then obtain ch' where ch': "writeAt p content ch = Some ch'" "fs' = Dir (AList.update x ch' es)"
        using 4(2) by (auto split: option.splits)
      have "lookup ch' q' = lookup ch q'" using 4(1)[OF Some ch'(1) np] .
      then show ?thesis using q True Some ch'(2) by (simp add: AList.update_conv')
    qed
  qed
qed

lemma writeAt_ancestor:
  "writeAt p c fs = Some fs' \<Longrightarrow> prefix q p \<Longrightarrow> q \<noteq> p \<Longrightarrow> isDirectory fs' q"
proof (induction p c fs arbitrary: fs' q rule: writeAt.induct)
  case (1 content c) then show ?case by simp
next
  case (2 content es) then show ?case by simp
next
  case (3 x p content c) then show ?case by simp
next
  case (4 x p content es)
  show ?case
  proof (cases q)
    case Nil
    then show ?thesis using 4(2) by (auto simp: isDirectory_Nil split: option.splits if_splits)
  next
    case (Cons y q')
    then have yx: "y = x" and pq: "prefix q' p" and ne: "q' \<noteq> p" using 4(3,4) by simp_all
    show ?thesis
    proof (cases "map_of es x")
      case None
      then have "p = []" using 4(2) by (auto split: if_splits)
      then show ?thesis using pq ne by simp
    next
      case (Some ch)
      then obtain ch' where ch': "writeAt p content ch = Some ch'" "fs' = Dir (AList.update x ch' es)"
        using 4(2) by (auto split: option.splits)
      have "isDirectory ch' q'" using 4(1)[OF Some ch'(1) pq ne] .
      then show ?thesis using Cons yx ch'(2) by (simp add: isDirectory_Cons AList.update_conv')
    qed
  qed
qed

lemma writeAt_succeeds:
  "p \<noteq> [] \<Longrightarrow> isDirectory fs (butlast p) \<Longrightarrow> \<not> isDirectory fs p \<Longrightarrow> writeAt p c fs \<noteq> None"
proof (induction p arbitrary: fs)
  case Nil then show ?case by simp
next
  case (Cons x p)
  show ?case
  proof (cases "p = []")
    case True
    then obtain es where fs: "fs = Dir es" using Cons.prems(2) by (auto simp: isDirectory_Nil)
    show ?thesis
    proof (cases "map_of es x")
      case None then show ?thesis using fs True by simp
    next
      case (Some ch)
      then have "\<not> isDirectory ch []" using Cons.prems(3) fs True by (simp add: isDirectory_Cons)
      then obtain c0 where "ch = File c0" by (cases ch) (auto simp: isDirectory_Nil)
      then show ?thesis using fs True Some by simp
    qed
  next
    case False
    then have bl: "butlast (x # p) = x # butlast p" by simp
    obtain es where fs: "fs = Dir es"
      using Cons.prems(2) bl by (cases fs) (auto simp: isDirectory_File)
    then obtain ch where ch: "map_of es x = Some ch" "isDirectory ch (butlast p)"
      using Cons.prems(2) bl by (auto simp: isDirectory_Cons)
    have "\<not> isDirectory ch p" using Cons.prems(3) fs ch(1) by (simp add: isDirectory_Cons)
    then have "writeAt p c ch \<noteq> None" using Cons.IH[OF False ch(2)] by simp
    then show ?thesis using fs ch(1) by (auto split: option.splits)
  qed
qed

lemma clearPath_iff: "clearPath fs d \<longleftrightarrow> (\<forall>q. prefix q d \<longrightarrow> lookup fs q = None \<or> isDirectory fs q)"
  by (auto simp add: clearPath_def in_set_prefixes)

lemma lookup_prefix: "lookup fs d \<noteq> None \<Longrightarrow> prefix q d \<Longrightarrow> lookup fs q \<noteq> None"
proof (induction fs d arbitrary: q rule: lookup.induct)
  case (1 n) then show ?case by simp
next
  case (2 c x p) then show ?case by simp
next
  case (3 es x p)
  show ?case
  proof (cases q)
    case Nil then show ?thesis by simp
  next
    case (Cons y q')
    then have "y = x" "prefix q' p" using 3(3) by simp_all
    then show ?thesis using 3 Cons by (auto split: option.splits)
  qed
qed

lemma isDirectory_cong: "lookup fs' q = lookup fs q \<Longrightarrow> isDirectory fs' q = isDirectory fs q"
  by (simp add: isDirectory_def)

lemma ensureDir_clear:
  assumes "clearPath (bfs s) d"
  shows "\<exists>s'. ensureDir d s = (None, s') \<and> blog s' = blog s
           \<and> (\<forall>q. prefix q d \<longrightarrow> isDirectory (bfs s') q)
           \<and> (\<forall>q. \<not> prefix q d \<longrightarrow> lookup (bfs s') q = lookup (bfs s) q)"
proof (cases "existsSync (bfs s) d")
  case True
  have "isDirectory (bfs s) q" if "prefix q d" for q
  proof -
    have "lookup (bfs s) q \<noteq> None" using True that lookup_prefix by (simp add: existsSync_def)
    then show ?thesis using assms that by (auto simp: clearPath_iff)
  qed
  then show ?thesis using True by (simp add: ensureDir_def)
next
  case False
  have "mkdirp d (bfs s) \<noteq> None" using assms by (intro mkdirp_succeeds) (simp add: clearPath_iff)
  then obtain fs' where fs': "mkdirp d (bfs s) = Some fs'" by auto
  then have "ensureDir d s = (None, s\<lparr>bfs := fs'\<rparr>)" using False by (simp add: ensureDir_def mkdirSync_def)
  then show ?thesis using mkdirp_isDirectory[OF fs'] mkdirp_lookup_other[OF fs'] by simp
qed

lemma writeFile_in_dir:
  assumes "isDirectory (bfs s) d" "\<not> isDirectory (bfs s) (d @ [f])"
  shows "\<exists>s'. writeFile (d @ [f]) c s = (None, s') \<and> blog s' = blog s
           \<and> lookup (bfs s') (d @ [f]) = Some (File c)
           \<and> isDirectory (bfs s') d
           \<and> (\<forall>q. \<not> prefix q (d @ [f]) \<longrightarrow> lookup (bfs s') q = lookup (bfs s) q)"
proof -
  have "writeAt (d @ [f]) c (bfs s) \<noteq> None" using assms by (intro writeAt_succeeds) simp_all
  then obtain fs' where fs': "writeAt (d @ [f]) c (bfs s) = Some fs'" by auto
  then have "writeFile (d @ [f]) c s = (None, s\<lparr>bfs := fs'\<rparr>)"
    by (simp add: writeFile_def writeFileSync_def)
  moreover have "isDirectory fs' d" using writeAt_ancestor[OF fs', of d] by simp
  ultimately show ?thesis using writeAt_lookup_same[OF fs'] writeAt_lookup_other[OF fs'] by simp
qed

lemma clearPath_preserved:
  assumes "clearPath fs e"
    and "\<forall>q. prefix q d \<longrightarrow> isDirectory fs' q"
    and "\<forall>q. \<not> prefix q d \<longrightarrow> lookup fs' q = lookup fs q"
  shows "clearPath fs' e"
  unfolding clearPath_iff
proof (intro allI impI)
  fix q assume "prefix q e"
  then have "lookup fs q = None \<or> isDirectory fs q" using assms(1) by (simp add: clearPath_iff)
  then show "lookup fs' q = None \<or> isDirectory fs' q"
    using assms(2,3) isDirectory_cong[of fs' q fs] by (cases "prefix q d") auto
qed

lemma clearPath_prefix: "clearPath fs e \<Longrightarrow> prefix d e \<Longrightarrow> clearPath fs d"
  unfolding clearPath_iff using prefix_order.order_trans by blast

text \<open>One conditional \<open>mkdir\<close> below the two directories the generation needs.\<close>

lemma ensureDir_step:
  assumes inv: "clearPath (bfs s) a" "clearPath (bfs s) b"
    and d: "prefix d a \<or> prefix d b"
  shows "\<exists>s'. ensureDir d s = (None, s') \<and> blog s' = blog s
           \<and> clearPath (bfs s') a \<and> clearPath (bfs s') b
           \<and> isDirectory (bfs s') d
           \<and> (\<forall>q. \<not> prefix q a \<and> \<not> prefix q b \<longrightarrow> lookup (bfs s') q = lookup (bfs s) q)"
proof -
  have "clearPath (bfs s) d" using inv d clearPath_prefix by blast
  then obtain s' where s': "ensureDir d s = (None, s')" "blog s' = blog s"
      "\<forall>q. prefix q d \<longrightarrow> isDirectory (bfs s') q"
      "\<forall>q. \<not> prefix q d \<longrightarrow> lookup (bfs s') q = lookup (bfs s) q"
    using ensureDir_clear by blast
  have "clearPath (bfs s') a" "clearPath (bfs s') b"
    using clearPath_preserved[OF inv(1) s'(3,4)] clearPath_preserved[OF inv(2) s'(3,4)] by simp_all
  moreover have "isDirectory (bfs s') d" using s'(3) by simp
  moreover have "lookup (bfs s') q = lookup (bfs s) q" if "\<not> prefix q a \<and> \<not> prefix q b" for q
  proof -
    have "\<not> prefix q d" using that d prefix_order.order_trans by blast
    then show ?thesis using s'(4) by simp
  qed
  ultimately show ?thesis using s'(1,2) by blast
qed

section \<open>The auxiliary components with the library resource missing\<close>

lemma prefix_snoc_same_length: "prefix (d @ [f]) (d @ [g]) \<longleftrightarrow> f = g"
  by simp

lemma not_prefix_longer: "length e < length q \<Longrightarrow> \<not> prefix q e"
  using prefix_length_le by fastforce

text \<open>The run of the generation with the resource missing, step by step.\<close>

lemma missing_library_generation:
  assumes missing: "\<not> existsSync (bfs s) (libraryProdPath env lib)"
    and apart: "\<not> prefix (libraryProdPath env lib) (outputDir env @ [''lwc'', componentName env])"
               "\<not> prefix (libraryProdPath env lib) (outputDir env @ [''lwc'', libraryComponent lib])"
    and clear: "clearPath (bfs s) (outputDir env @ [''lwc'', componentName env])"
               "clearPath (bfs s) (outputDir env @ [''lwc'', libraryComponent lib])"
    and targets: "\<forall>f \<in> set (libraryFiles lib).
                    \<not> isDirectory (bfs s) (outputDir env @ [''lwc'', libraryComponent lib, f])"
  shows "fst (generateLibraryImport env lib s) = Success (outputDir env) (libraryComponent lib)
       \<and> libraryNotFound lib \<in> set (blog (snd (generateLibraryImport env lib s)))
       \<and> lookup (bfs (snd (generateLibraryImport env lib s)))
            (outputDir env @ [''lwc'', libraryComponent lib, libraryComponent lib @ ''.js''])
          = Some (File (libraryJSContent lib (libraryStub lib)))"
proof -
  define od where "od = outputDir env"
  define a where "a = od @ [''lwc'', componentName env]"
  define b where "b = od @ [''lwc'', libraryComponent lib]"
  define c where "c = libraryComponent lib"
  define pp where "pp = libraryProdPath env lib"
  have ab: "clearPath (bfs s) a" "clearPath (bfs s) b" using clear by (simp_all add: a_def b_def od_def)
  have untouched: "\<not> prefix q a \<and> \<not> prefix q b" if "q = pp \<or> (\<exists>f. q = b @ [f])" for q
  proof -
    have "\<not> prefix (b @ [f]) a" "\<not> prefix (b @ [f]) b" for f
      by (rule not_prefix_longer, simp add: a_def b_def)+
    then show ?thesis using that apart by (auto simp: pp_def a_def b_def od_def)
  qed
  have p1: "prefix od a \<or> prefix od b" by (simp add: a_def)
  have p2: "prefix (od @ [''lwc'']) a \<or> prefix (od @ [''lwc'']) b" by (simp add: a_def)
  have p3: "prefix a a \<or> prefix a b" by simp
  have p5: "prefix b a \<or> prefix b b" by simp
  obtain s1 where s1: "ensureDir od s = (None, s1)" "blog s1 = blog s"
      "clearPath (bfs s1) a" "clearPath (bfs s1) b"
      "\<forall>q. \<not> prefix q a \<and> \<not> prefix q b \<longrightarrow> lookup (bfs s1) q = lookup (bfs s) q"
    using ensureDir_step[OF ab p1] by blast
  obtain s2 where s2: "ensureDir (od @ [''lwc'']) s1 = (None, s2)" "blog s2 = blog s1"
      "clearPath (bfs s2) a" "clearPath (bfs s2) b"
      "\<forall>q. \<not> prefix q a \<and> \<not> prefix q b \<longrightarrow> lookup (bfs s2) q = lookup (bfs s1) q"
    using ensureDir_step[OF s1(3,4) p2] by blast
  obtain s3 where s3: "ensureDir a s2 = (None, s3)" "blog s3 = blog s2"
      "clearPath (bfs s3) a" "clearPath (bfs s3) b"
      "\<forall>q. \<not> prefix q a \<and> \<not> prefix q b \<longrightarrow> lookup (bfs s3) q = lookup (bfs s2) q"
    using ensureDir_step[OF s2(3,4) p3] by blast
  obtain s4 where s4: "ensureDir (od @ [''lwc'']) s3 = (None, s4)" "blog s4 = blog s3"
      "clearPath (bfs s4) a" "clearPath (bfs s4) b"
      "\<forall>q. \<not> prefix q a \<and> \<not> prefix q b \<longrightarrow> lookup (bfs s4) q = lookup (bfs s3) q"
    using ensureDir_step[OF s3(3,4) p2] by blast
  obtain s5 where s5: "ensureDir b s4 = (None, s5)" "blog s5 = blog s4"
      "isDirectory (bfs s5) b"
      "\<forall>q. \<not> prefix q a \<and> \<not> prefix q b \<longrightarrow> lookup (bfs s5) q = lookup (bfs s4) q"
    using ensureDir_step[OF s4(3,4) p5] by blast
  have same: "lookup (bfs s5) q = lookup (bfs s) q" if "q = pp \<or> (\<exists>f. q = b @ [f])" for q
    using untouched[OF that] s1(5) s2(5) s3(5) s4(5) s5(4) by simp
  have create: "createOutputDirectory env s = (None, s3)"
    using s1(1) s2(1) s3(1) by (simp add: createOutputDirectory_def od_def a_def Let_def)
  \<comment> \<open>the script module\<close>
  have nolib: "\<not> existsSync (bfs s5) pp"
    using same[of pp] missing by (simp add: existsSync_def pp_def)
  have tgt: "\<not> isDirectory (bfs s5) (b @ [f])" if "f \<in> set (libraryFiles lib)" for f
  proof -
    have "\<not> isDirectory (bfs s) (b @ [f])" using targets that by (simp add: b_def od_def)
    then show ?thesis using same[of "b @ [f]"] isDirectory_cong by blast
  qed
  let ?s5' = "logged (libraryNotFound lib) s5"
  have d5': "isDirectory (bfs ?s5') b" "\<not> isDirectory (bfs ?s5') (b @ [c @ ''.js''])"
    using s5(3) tgt[of "c @ ''.js''"] by (simp_all add: logged_def libraryFiles_def c_def)
  obtain s6 where s6: "writeFile (b @ [c @ ''.js'']) (libraryJSContent lib (libraryStub lib)) ?s5' = (None, s6)"
      "blog s6 = blog ?s5'"
      "lookup (bfs s6) (b @ [c @ ''.js'']) = Some (File (libraryJSContent lib (libraryStub lib)))"
      "isDirectory (bfs s6) b"
      "\<forall>q. \<not> prefix q (b @ [c @ ''.js'']) \<longrightarrow> lookup (bfs s6) q = lookup (bfs ?s5') q"
    using writeFile_in_dir[OF d5'] by blast
  have js: "generateLibraryJSFile env lib b s5 = s6"
    using nolib s6(1) by (simp add: generateLibraryJSFile_def pp_def c_def)
  \<comment> \<open>the three descriptor files\<close>
  have d6: "\<not> isDirectory (bfs s6) (b @ [c @ ''.html''])"
    using tgt[of "c @ ''.html''"] s6(5) isDirectory_cong[of "bfs s6" "b @ [c @ ''.html'']" "bfs s5"]
    by (simp add: libraryFiles_def c_def logged_def)
  obtain s7 where s7: "writeFile (b @ [c @ ''.html'']) (libraryHTML lib) s6 = (None, s7)"
      "blog s7 = blog s6" "isDirectory (bfs s7) b"
      "\<forall>q. \<not> prefix q (b @ [c @ ''.html'']) \<longrightarrow> lookup (bfs s7) q = lookup (bfs s6) q"
    using writeFile_in_dir[OF s6(4) d6] by blast
  have d7: "\<not> isDirectory (bfs s7) (b @ [c @ ''.css''])"
    using tgt[of "c @ ''.css''"] s6(5) s7(4) isDirectory_cong[of "bfs s7" "b @ [c @ ''.css'']" "bfs s5"]
    by (simp add: libraryFiles_def c_def logged_def)
  obtain s8 where s8: "writeFile (b @ [c @ ''.css'']) (libraryCSS lib) s7 = (None, s8)"
      "blog s8 = blog s7" "isDirectory (bfs s8) b"
      "\<forall>q. \<not> prefix q (b @ [c @ ''.css'']) \<longrightarrow> lookup (bfs s8) q = lookup (bfs s7) q"
    using writeFile_in_dir[OF s7(3) d7] by blast
  have d8: "\<not> isDirectory (bfs s8) (b @ [c @ ''.js-meta.xml''])"
    using tgt[of "c @ ''.js-meta.xml''"] s6(5) s7(4) s8(4)
      isDirectory_cong[of "bfs s8" "b @ [c @ ''.js-meta.xml'']" "bfs s5"]
    by (simp add: libraryFiles_def c_def logged_def)
  obtain s9 where s9: "writeFile (b @ [c @ ''.js-meta.xml'']) libraryMeta s8 = (None, s9)"
      "blog s9 = blog s8"
      "\<forall>q. \<not> prefix q (b @ [c @ ''.js-meta.xml'']) \<longrightarrow> lookup (bfs s9) q = lookup (bfs s8) q"
    using writeFile_in_dir[OF s8(3) d8] by blast
  have comp: "generateLibraryLWCComponent env lib s3 = (None, s9)"
    using s4(1) s5(1) js s7(1) s8(1) s9(1)
    by (simp add: generateLibraryLWCComponent_def od_def b_def c_def Let_def)
  have kept: "lookup (bfs s9) (b @ [c @ ''.js'']) = Some (File (libraryJSContent lib (libraryStub lib)))"
    using s6(3) s7(4) s8(4) s9(3) by simp
  have warned: "libraryNotFound lib \<in> set (blog s9)"
    using s6(2) s7(2) s8(2) s9(2) by (simp add: logged_def)
  show ?thesis
    using create comp kept warned
    by (simp add: generateLibraryImport_def logged_def b_def od_def c_def)
qed

text \<open>
  Claim C8.  With the library resource missing, the output directories free of files
  in the way and not reaching the resource path, and none of the component's four
  files being a directory, generating the auxiliary component returns the success
  result, logs the not-found warning, and leaves a script module that is the
  generator's template with the stub comment \<open>// React library not found\<close> (resp.
  \<open>// ReactDOM library not found\<close>) where the library source would stand.
\<close>

theorem missing_library_gives_stub:
  assumes "\<not> existsSync (bfs s) (libraryProdPath env lib)"
    and "\<not> prefix (libraryProdPath env lib) (outputDir env @ [''lwc'', componentName env])"
    and "\<not> prefix (libraryProdPath env lib) (outputDir env @ [''lwc'', libraryComponent lib])"
    and "clearPath (bfs s) (outputDir env @ [''lwc'', componentName env])"
    and "clearPath (bfs s) (outputDir env @ [''lwc'', libraryComponent lib])"
    and "\<forall>f \<in> set (libraryFiles lib).
           \<not> isDirectory (bfs s) (outputDir env @ [''lwc'', libraryComponent lib, f])"
  shows "(lib = ReactLibrary \<longrightarrow>
            fst (generateLibraryImport env lib s) = Success (outputDir env) ''react''
          \<and> ConsoleWarn ''React production library not found in node_modules''
              \<in> set (blog (snd (generateLibraryImport env lib s)))
          \<and> lookup (bfs (snd (generateLibraryImport env lib s)))
               (outputDir env @ [''lwc'', ''react'', ''react.js''])
             = Some (File (''// Execute the React library code\<newline>'' @
                           ''// React library not found'' @
                           ''\<newline>\<newline>// Export React instance\<newline>export default window.React;'')))
       \<and> (lib = ReactDOMLibrary \<longrightarrow>
            fst (generateLibraryImport env lib s) = Success (outputDir env) ''reactdom''
          \<and> ConsoleWarn ''ReactDOM production library not found in node_modules''
              \<in> set (blog (snd (generateLibraryImport env lib s)))
          \<and> lookup (bfs (snd (generateLibraryImport env lib s)))
               (outputDir env @ [''lwc'', ''reactdom'', ''reactdom.js''])
             = Some (File (''// Execute the ReactDOM library code\<newline>'' @
                           ''// ReactDOM library not found'' @
                           ''\<newline>\<newline>// Export ReactDOM instance\<newline>export default window.ReactDOM;'')))
       \<and> (\<exists>before after.
             lookup (bfs (snd (generateLibraryImport env lib s)))
               (outputDir env @ [''lwc'', libraryComponent lib, libraryComponent lib @ ''.js''])
             = Some (File (before @ libraryStub lib @ after)))"
proof -
  note run = missing_library_generation[OF assms]
  have r: "lib = ReactLibrary \<longrightarrow>
            fst (generateLibraryImport env lib s) = Success (outputDir env) ''react''
          \<and> ConsoleWarn ''React production library not found in node_modules''
              \<in> set (blog (snd (generateLibraryImport env lib s)))
          \<and> lookup (bfs (snd (generateLibraryImport env lib s)))
               (outputDir env @ [''lwc'', ''react'', ''react.js''])
             = Some (File (''// Execute the React library code\<newline>'' @
                           ''// React library not found'' @
                           ''\<newline>\<newline>// Export React instance\<newline>export default window.React;''))"
  proof (intro impI)
    assume l: "lib = ReactLibrary"
    show "fst (generateLibraryImport env lib s) = Success (outputDir env) ''react''
          \<and> ConsoleWarn ''React production library not found in node_modules''
              \<in> set (blog (snd (generateLibraryImport env lib s)))
          \<and> lookup (bfs (snd (generateLibraryImport env lib s)))
               (outputDir env @ [''lwc'', ''react'', ''react.js''])
             = Some (File (''// Execute the React library code\<newline>'' @
                           ''// React library not found'' @
                           ''\<newline>\<newline>// Export React instance\<newline>export default window.React;''))"
      using run unfolding l
      by (simp add: libraryJSContent_def libraryStub_def libraryNotFound_def libraryTitle_def
          libraryComponent_def)
  qed
  have d: "lib = ReactDOMLibrary \<longrightarrow>
            fst (generateLibraryImport env lib s) = Success (outputDir env) ''reactdom''
          \<and> ConsoleWarn ''ReactDOM production library not found in node_modules''
              \<in> set (blog (snd (generateLibraryImport env lib s)))
          \<and> lookup (bfs (snd (generateLibraryImport env lib s)))
               (outputDir env @ [''lwc'', ''reactdom'', ''reactdom.js''])
             = Some (File (''// Execute the ReactDOM library code\<newline>'' @
                           ''// ReactDOM library not found'' @
                           ''\<newline>\<newline>// Export ReactDOM instance\<newline>export default window.ReactDOM;''))"
  proof (intro impI)
    assume l: "lib = ReactDOMLibrary"
    show "fst (generateLibraryImport env lib s) = Success (outputDir env) ''reactdom''
          \<and> ConsoleWarn ''ReactDOM production library not found in node_modules''
              \<in> set (blog (snd (generateLibraryImport env lib s)))
          \<and> lookup (bfs (snd (generateLibraryImport env lib s)))
               (outputDir env @ [''lwc'', ''reactdom'', ''reactdom.js''])
             = Some (File (''// Execute the ReactDOM library code\<newline>'' @
                           ''// ReactDOM library not found'' @
                           ''\<newline>\<newline>// Export ReactDOM instance\<newline>export default window.ReactDOM;''))"
      using run unfolding l
      by (simp add: libraryJSContent_def libraryStub_def libraryNotFound_def libraryTitle_def
          libraryComponent_def)
  qed
  have "libraryJSContent lib (libraryStub lib) =
          (''// Execute the '' @ libraryTitle lib @ '' library code\<newline>'') @ libraryStub lib @
          (''\<newline>\<newline>// Export '' @ libraryTitle lib @ '' instance\<newline>export default window.'' @
           libraryTitle lib @ '';'')"
    by (simp add: libraryJSContent_def)
  then have e: "\<exists>before after.
             lookup (bfs (snd (generateLibraryImport env lib s)))
               (outputDir env @ [''lwc'', libraryComponent lib, libraryComponent lib @ ''.js''])
             = Some (File (before @ libraryStub lib @ after))"
    using run by metis
  show ?thesis using r d e by blast
qed

theorem missing_library_gives_stub_witness:
  "fst (generateLibraryImport exampleEnv ReactLibrary \<lparr>bfs = projectTree, blog = []\<rparr>)
     = Success [''dist''] ''react''
   \<and> ConsoleWarn ''React production library not found in node_modules''
       \<in> set (blog (snd (generateLibraryImport exampleEnv ReactLibrary \<lparr>bfs = projectTree, blog = []\<rparr>)))
   \<and> lookup (bfs (snd (generateLibraryImport exampleEnv ReactLibrary \<lparr>bfs = projectTree, blog = []\<rparr>)))
        [''dist'', ''lwc'', ''react'', ''react.js'']
      = Some (File ''// Execute the React library code\<newline>// React library not found\<newline>\<newline>// Export React instance\<newline>export default window.React;'')
   \<and> fst (generateLibraryImport exampleEnv ReactDOMLibrary \<lparr>bfs = projectTree, blog = []\<rparr>)
     = Success [''dist''] ''reactdom''
   \<and> ConsoleWarn ''ReactDOM production library not found in node_modules''
       \<in> set (blog (snd (generateLibraryImport exampleEnv ReactDOMLibrary \<lparr>bfs = projectTree, blog = []\<rparr>)))
   \<and> lookup (bfs (snd (generateLibraryImport exampleEnv ReactDOMLibrary \<lparr>bfs = projectTree, blog = []\<rparr>)))
        [''dist'', ''lwc'', ''reactdom'', ''reactdom.js'']
      = Some (File ''// Execute the ReactDOM library code\<newline>// ReactDOM library not found\<newline>\<newline>// Export ReactDOM instance\<newline>export default window.ReactDOM;'')"
proof -
  let ?s = "\<lparr>bfs = projectTree, blog = []\<rparr>"
  have h1: "\<not> existsSync (bfs ?s) (libraryProdPath exampleEnv lib)" for lib
    by (cases lib)
       (simp_all add: existsSync_def libraryProdPath_def libraryResource_def sibling_def
          exampleEnv_def projectTree_def)
  have h2: "\<not> prefix (libraryProdPath exampleEnv lib)
              (outputDir exampleEnv @ [''lwc'', componentName exampleEnv])" for lib
    by (simp add: libraryProdPath_def sibling_def exampleEnv_def)
  have h3: "\<not> prefix (libraryProdPath exampleEnv lib)
              (outputDir exampleEnv @ [''lwc'', libraryComponent lib])" for lib
    by (simp add: libraryProdPath_def sibling_def exampleEnv_def)
  have h4: "clearPath (bfs ?s) (outputDir exampleEnv @ [''lwc'', componentName exampleEnv])"
    by (simp add: clearPath_def isDirectory_def exampleEnv_def projectTree_def)
  have h5: "clearPath (bfs ?s) (outputDir exampleEnv @ [''lwc'', libraryComponent lib])" for lib
    by (cases lib)
       (simp_all add: clearPath_def isDirectory_def exampleEnv_def projectTree_def
          libraryComponent_def)
  have h6: "\<forall>f \<in> set (libraryFiles lib).
              \<not> isDirectory (bfs ?s) (outputDir exampleEnv @ [''lwc'', libraryComponent lib, f])"
    for lib
    by (cases lib)
       (simp_all add: isDirectory_def exampleEnv_def projectTree_def libraryComponent_def
          libraryFiles_def)
  have react: "outputDir exampleEnv = [''dist'']" by (simp add: exampleEnv_def)
  show ?thesis
    using missing_library_gives_stub[OF h1 h2 h3 h4 h5 h6, of ReactLibrary]
          missing_library_gives_stub[OF h1 h2 h3 h4 h5 h6, of ReactDOMLibrary]
    by (simp add: react)
qed


end
